theory Spec2Isabelle
  imports Main "HOL-Library.Word"
begin

section \<open>Values of the host language\<close>

text \<open>
  The module under verification is \<^verbatim>\<open>src/lib/crypto.ts\<close>. It composes the
  Web Crypto API, the base64 helpers \<^verbatim>\<open>btoa\<close>/\<^verbatim>\<open>atob\<close>, \<^verbatim>\<open>TextEncoder\<close>,
  \<^verbatim>\<open>TextDecoder\<close>, \<^verbatim>\<open>JSON.parse\<close> and an IndexedDB object store.
  A string of the host language is a sequence of 16-bit code units, a buffer is a
  sequence of bytes, and every exception is a value of the type \<open>error\<close>.
\<close>

type_synonym byte = "8 word"
type_synonym bytes = "byte list"
type_synonym code_unit = "16 word"
type_synonym jsstring = "code_unit list"

definition js :: "string \<Rightarrow> jsstring" where
  "js s = map of_char s"

datatype error =
    InvalidCharacterError
  | DataError
  | OperationError
  | RangeError
  | InvalidAccessError
  | NotSupportedError
  | SyntaxError
  | TypeError

subsection \<open>\<^verbatim>\<open>charCodeAt\<close>, \<^verbatim>\<open>btoa\<close> and \<^verbatim>\<open>atob\<close>\<close>

text \<open>\<^verbatim>\<open>Uint8Array.from(s, c => c.charCodeAt(0))\<close>: one byte per code unit, reduced
  modulo 256 as the typed array does.\<close>

definition charCodes :: "jsstring \<Rightarrow> bytes" where
  "charCodes s = map ucast s"

definition b64_char :: "nat \<Rightarrow> code_unit" where
  "b64_char n =
     (if n < 26 then of_nat (65 + n)
      else if n < 52 then of_nat (97 + (n - 26))
      else if n < 62 then of_nat (48 + (n - 52))
      else if n = 62 then 0x2B
      else 0x2F)"

definition b64_val :: "code_unit \<Rightarrow> nat option" where
  "b64_val c =
     (let u = unat c in
      if 65 \<le> u \<and> u \<le> 90 then Some (u - 65)
      else if 97 \<le> u \<and> u \<le> 122 then Some (u - 97 + 26)
      else if 48 \<le> u \<and> u \<le> 57 then Some (u - 48 + 52)
      else if u = 43 then Some 62
      else if u = 47 then Some 63
      else None)"

definition b64_pad :: code_unit where
  "b64_pad = 0x3D"

fun b64_encode :: "bytes \<Rightarrow> jsstring" where
  "b64_encode [] = []"
| "b64_encode [a] =
     [b64_char (unat a div 4), b64_char ((unat a mod 4) * 16), b64_pad, b64_pad]"
| "b64_encode [a, b] =
     [b64_char (unat a div 4), b64_char ((unat a mod 4) * 16 + unat b div 16),
      b64_char ((unat b mod 16) * 4), b64_pad]"
| "b64_encode (a # b # c # r) =
     b64_char (unat a div 4) # b64_char ((unat a mod 4) * 16 + unat b div 16) #
     b64_char ((unat b mod 16) * 4 + unat c div 64) # b64_char (unat c mod 64) #
     b64_encode r"

text \<open>\<^verbatim>\<open>btoa\<close> throws on a code unit above 0xFF and encodes the others as bytes.\<close>

definition btoa :: "jsstring \<Rightarrow> error + jsstring" where
  "btoa s =
     (if list_ex (\<lambda>c. 0xFF < c) s then Inl InvalidCharacterError
      else Inr (b64_encode (map ucast s)))"

definition is_ascii_whitespace :: "code_unit \<Rightarrow> bool" where
  "is_ascii_whitespace c \<longleftrightarrow> c = 0x09 \<or> c = 0x0A \<or> c = 0x0C \<or> c = 0x0D \<or> c = 0x20"

definition strip_padding :: "jsstring \<Rightarrow> jsstring" where
  "strip_padding d =
     (if length d mod 4 = 0 \<and> d \<noteq> [] \<and> last d = b64_pad then
        (let d1 = butlast d in
         if d1 \<noteq> [] \<and> last d1 = b64_pad then butlast d1 else d1)
      else d)"

fun b64_decode :: "nat list \<Rightarrow> bytes" where
  "b64_decode (a # b # c # d # r) =
     of_nat (a * 4 + b div 16) # of_nat ((b mod 16) * 16 + c div 4) #
     of_nat ((c mod 4) * 64 + d) # b64_decode r"
| "b64_decode [a, b, c] = [of_nat (a * 4 + b div 16), of_nat ((b mod 16) * 16 + c div 4)]"
| "b64_decode [a, b] = [of_nat (a * 4 + b div 16)]"
| "b64_decode [a] = []"
| "b64_decode [] = []"

text \<open>
  The forgiving base64 decoder behind \<^verbatim>\<open>atob\<close>: ASCII whitespace is removed, one or
  two trailing \<^verbatim>\<open>=\<close> are removed when the length is a multiple of four, a length of
  1 modulo 4 or a character outside the alphabet fails, and the bits left over in the
  last group are discarded.
\<close>

definition forgiving_base64_decode :: "jsstring \<Rightarrow> bytes option" where
  "forgiving_base64_decode dat =
     (let d = strip_padding (filter (\<lambda>c. \<not> is_ascii_whitespace c) dat) in
      if length d mod 4 = 1 then None
      else (case those (map b64_val d) of
              None \<Rightarrow> None
            | Some sx \<Rightarrow> Some (b64_decode sx)))"

definition atob :: "jsstring \<Rightarrow> error + jsstring" where
  "atob s =
     (case forgiving_base64_decode s of
        None \<Rightarrow> Inl InvalidCharacterError
      | Some bs \<Rightarrow> Inr (map ucast bs))"

subsection \<open>\<^verbatim>\<open>TextEncoder\<close> and \<^verbatim>\<open>TextDecoder\<close>\<close>

definition is_high_surrogate :: "code_unit \<Rightarrow> bool" where
  "is_high_surrogate c \<longleftrightarrow> 0xD800 \<le> c \<and> c \<le> 0xDBFF"

definition is_low_surrogate :: "code_unit \<Rightarrow> bool" where
  "is_low_surrogate c \<longleftrightarrow> 0xDC00 \<le> c \<and> c \<le> 0xDFFF"

definition is_surrogate :: "code_unit \<Rightarrow> bool" where
  "is_surrogate c \<longleftrightarrow> is_high_surrogate c \<or> is_low_surrogate c"

text \<open>The scalar values of a string: a surrogate pair is one scalar value, a surrogate
  that is not part of a pair becomes U+FFFD.\<close>

fun utf16_scalars :: "jsstring \<Rightarrow> nat list" where
  "utf16_scalars [] = []"
| "utf16_scalars [c] = [if is_surrogate c then 0xFFFD else unat c]"
| "utf16_scalars (c # d # r) =
     (if is_high_surrogate c \<and> is_low_surrogate d
      then (0x10000 + (unat c - 0xD800) * 0x400 + (unat d - 0xDC00)) # utf16_scalars r
      else (if is_surrogate c then 0xFFFD else unat c) # utf16_scalars (d # r))"

definition utf8_encode_scalar :: "nat \<Rightarrow> bytes" where
  "utf8_encode_scalar n =
     (if n < 0x80 then [of_nat n]
      else if n < 0x800 then [of_nat (0xC0 + n div 64), of_nat (0x80 + n mod 64)]
      else if n < 0x10000 then
        [of_nat (0xE0 + n div 4096), of_nat (0x80 + (n div 64) mod 64), of_nat (0x80 + n mod 64)]
      else
        [of_nat (0xF0 + n div 262144), of_nat (0x80 + (n div 4096) mod 64),
         of_nat (0x80 + (n div 64) mod 64), of_nat (0x80 + n mod 64)])"

text \<open>\<^verbatim>\<open>new TextEncoder().encode(s)\<close>\<close>

definition TextEncoder_encode :: "jsstring \<Rightarrow> bytes" where
  "TextEncoder_encode s = concat (map utf8_encode_scalar (utf16_scalars s))"

text \<open>
  The UTF-8 decoder of the Encoding standard, in replacement mode. The state is the
  code point collected so far, the number of continuation bytes still needed and the
  bounds the next byte has to meet. A byte that does not continue a sequence ends the
  sequence with U+FFFD and is read again in the initial state.
\<close>

function utf8_decode_from :: "nat \<Rightarrow> nat \<Rightarrow> nat \<Rightarrow> nat \<Rightarrow> bytes \<Rightarrow> nat list" where
  "utf8_decode_from cp needed lo hi [] = (if needed = 0 then [] else [0xFFFD])"
| "utf8_decode_from cp needed lo hi (b # bs) =
     (if needed = 0 then
        (if unat b \<le> 0x7F then unat b # utf8_decode_from 0 0 0x80 0xBF bs
         else if 0xC2 \<le> unat b \<and> unat b \<le> 0xDF then
           utf8_decode_from (unat b mod 32) 1 0x80 0xBF bs
         else if 0xE0 \<le> unat b \<and> unat b \<le> 0xEF then
           utf8_decode_from (unat b mod 16) 2
             (if unat b = 0xE0 then 0xA0 else 0x80) (if unat b = 0xED then 0x9F else 0xBF) bs
         else if 0xF0 \<le> unat b \<and> unat b \<le> 0xF4 then
           utf8_decode_from (unat b mod 8) 3
             (if unat b = 0xF0 then 0x90 else 0x80) (if unat b = 0xF4 then 0x8F else 0xBF) bs
         else 0xFFFD # utf8_decode_from 0 0 0x80 0xBF bs)
      else if unat b < lo \<or> hi < unat b then 0xFFFD # utf8_decode_from 0 0 0x80 0xBF (b # bs)
      else if needed = 1 then (cp * 64 + unat b mod 64) # utf8_decode_from 0 0 0x80 0xBF bs
      else utf8_decode_from (cp * 64 + unat b mod 64) (needed - 1) 0x80 0xBF bs)"
  by pat_completeness auto
termination
  by (relation "measure (\<lambda>(cp, needed, lo, hi, bs). 2 * length bs + (if needed = 0 then 0 else 1))")
     auto

definition utf8_decode :: "bytes \<Rightarrow> nat list" where
  "utf8_decode bs = utf8_decode_from 0 0 0x80 0xBF bs"

text \<open>A decoder created without options removes one leading U+FEFF.\<close>

definition strip_bom :: "nat list \<Rightarrow> nat list" where
  "strip_bom cps = (case cps of [] \<Rightarrow> [] | c # r \<Rightarrow> if c = 0xFEFF then r else c # r)"

definition utf16_units :: "nat \<Rightarrow> jsstring" where
  "utf16_units n =
     (if n < 0x10000 then [of_nat n]
      else [of_nat (0xD800 + (n - 0x10000) div 0x400), of_nat (0xDC00 + (n - 0x10000) mod 0x400)])"

text \<open>\<^verbatim>\<open>new TextDecoder().decode(buf)\<close>\<close>

definition TextDecoder_decode :: "bytes \<Rightarrow> jsstring" where
  "TextDecoder_decode bs = concat (map utf16_units (strip_bom (utf8_decode bs)))"

subsection \<open>Own properties of an ordinary object\<close>

text \<open>
  An object is the list of its own enumerable properties in the order in which
  \<^verbatim>\<open>Object.entries\<close>, \<^verbatim>\<open>Object.values\<close> and \<^verbatim>\<open>JSON.stringify\<close> visit them: the
  array indices in ascending numeric order, then the other keys in creation order.
\<close>

definition is_digit :: "code_unit \<Rightarrow> bool" where
  "is_digit c \<longleftrightarrow> 0x30 \<le> c \<and> c \<le> 0x39"

definition decimal_value :: "jsstring \<Rightarrow> nat" where
  "decimal_value s = foldl (\<lambda>a c. a * 10 + (unat c - 48)) 0 s"

function to_decimal :: "nat \<Rightarrow> jsstring" where
  "to_decimal n =
     (if n < 10 then [of_nat (48 + n)] else to_decimal (n div 10) @ [of_nat (48 + n mod 10)])"
  by pat_completeness auto
termination
  by (relation "measure id") auto

text \<open>An array index is the canonical decimal numeral of an integer below \<open>2^32 - 1\<close>.\<close>

definition array_index :: "jsstring \<Rightarrow> nat option" where
  "array_index s =
     (if s \<noteq> [] \<and> list_all is_digit s \<and> decimal_value s < 4294967295
         \<and> to_decimal (decimal_value s) = s
      then Some (decimal_value s) else None)"

definition key_index_below :: "nat \<Rightarrow> jsstring \<Rightarrow> bool" where
  "key_index_below n k = (case array_index k of Some m \<Rightarrow> m < n | None \<Rightarrow> False)"

text \<open>Creating or overwriting an own data property (\<^verbatim>\<open>CreateDataProperty\<close>).\<close>

definition obj_define :: "(jsstring \<times> 'v) list \<Rightarrow> jsstring \<Rightarrow> 'v \<Rightarrow> (jsstring \<times> 'v) list" where
  "obj_define es k v =
     (case map_of es k of
        Some old \<Rightarrow> map (\<lambda>e. if fst e = k then (k, v) else e) es
      | None \<Rightarrow>
          (case array_index k of
             None \<Rightarrow> es @ [(k, v)]
           | Some n \<Rightarrow>
               takeWhile (\<lambda>e. key_index_below n (fst e)) es @ (k, v) #
               dropWhile (\<lambda>e. key_index_below n (fst e)) es))"

text \<open>
  The assignment \<^verbatim>\<open>o[k] = v\<close> of a string \<open>v\<close> to an object created by \<^verbatim>\<open>{}\<close>.
  The key \<^verbatim>\<open>__proto__\<close> reaches the setter inherited from \<^verbatim>\<open>Object.prototype\<close>,
  which ignores a value that is neither an object nor null; no property is created.
\<close>

definition obj_assign :: "(jsstring \<times> 'v) list \<Rightarrow> jsstring \<Rightarrow> 'v \<Rightarrow> (jsstring \<times> 'v) list" where
  "obj_assign es k v =
     (if k = js ''__proto__'' \<and> map_of es k = None then es else obj_define es k v)"

text \<open>The property names an ordinary object inherits from \<^verbatim>\<open>Object.prototype\<close>.\<close>

definition object_prototype_names :: "jsstring list" where
  "object_prototype_names =
     map js [''constructor'', ''__defineGetter__'', ''__defineSetter__'', ''hasOwnProperty'',
             ''__lookupGetter__'', ''__lookupSetter__'', ''isPrototypeOf'',
             ''propertyIsEnumerable'', ''toString'', ''valueOf'', ''__proto__'',
             ''toLocaleString'']"

subsection \<open>\<^verbatim>\<open>JSON.parse\<close> and \<^verbatim>\<open>JSON.stringify\<close>\<close>

text \<open>A number keeps its source text: the double it denotes is used only through
  the two functions of the platform that read it.\<close>

datatype json =
    JNull
  | JBool bool
  | JNumber jsstring
  | JString jsstring
  | JArray "json list"
  | JObject "(jsstring \<times> json) list"

definition is_json_ws :: "code_unit \<Rightarrow> bool" where
  "is_json_ws c \<longleftrightarrow> c = 0x20 \<or> c = 0x09 \<or> c = 0x0A \<or> c = 0x0D"

definition skip_ws :: "jsstring \<Rightarrow> jsstring" where
  "skip_ws s = dropWhile is_json_ws s"

definition hex_val :: "code_unit \<Rightarrow> nat option" where
  "hex_val c =
     (let u = unat c in
      if 48 \<le> u \<and> u \<le> 57 then Some (u - 48)
      else if 97 \<le> u \<and> u \<le> 102 then Some (u - 87)
      else if 65 \<le> u \<and> u \<le> 70 then Some (u - 55)
      else None)"

definition hex4 :: "code_unit \<Rightarrow> code_unit \<Rightarrow> code_unit \<Rightarrow> code_unit \<Rightarrow> code_unit option" where
  "hex4 a b c d =
     (case (hex_val a, hex_val b, hex_val c, hex_val d) of
        (Some x, Some y, Some z, Some w) \<Rightarrow> Some (of_nat (x * 4096 + y * 256 + z * 16 + w))
      | _ \<Rightarrow> None)"

definition unescape :: "code_unit \<Rightarrow> code_unit option" where
  "unescape e =
     (if e = 0x22 then Some 0x22
      else if e = 0x5C then Some 0x5C
      else if e = 0x2F then Some 0x2F
      else if e = 0x62 then Some 0x08
      else if e = 0x66 then Some 0x0C
      else if e = 0x6E then Some 0x0A
      else if e = 0x72 then Some 0x0D
      else if e = 0x74 then Some 0x09
      else None)"

text \<open>The characters of a string literal after its opening quote, up to and including
  the closing quote; the result is the string and the rest of the text.\<close>

fun parse_string :: "jsstring \<Rightarrow> (jsstring \<times> jsstring) option" where
  "parse_string [] = None"
| "parse_string (c # r) =
     (if c = 0x22 then Some ([], r)
      else if c = 0x5C then
        (case r of
           [] \<Rightarrow> None
         | e # r1 \<Rightarrow>
             if e = 0x75 then
               (case r1 of
                  h1 # h2 # h3 # h4 # r2 \<Rightarrow>
                    (case hex4 h1 h2 h3 h4 of
                       None \<Rightarrow> None
                     | Some u \<Rightarrow>
                         (case parse_string r2 of
                            None \<Rightarrow> None
                          | Some (s, t) \<Rightarrow> Some (u # s, t)))
                | _ \<Rightarrow> None)
             else
               (case unescape e of
                  None \<Rightarrow> None
                | Some u \<Rightarrow>
                    (case parse_string r1 of
                       None \<Rightarrow> None
                     | Some (s, t) \<Rightarrow> Some (u # s, t))))
      else if c < 0x20 then None
      else (case parse_string r of
              None \<Rightarrow> None
            | Some (s, t) \<Rightarrow> Some (c # s, t)))"

definition parse_int :: "jsstring \<Rightarrow> (jsstring \<times> jsstring) option" where
  "parse_int s =
     (case s of
        [] \<Rightarrow> None
      | d # t \<Rightarrow>
          if d = 0x30 then Some ([d], t)
          else if is_digit d then Some (d # takeWhile is_digit t, dropWhile is_digit t)
          else None)"

definition parse_frac :: "jsstring \<Rightarrow> (jsstring \<times> jsstring) option" where
  "parse_frac s =
     (case s of
        [] \<Rightarrow> Some ([], s)
      | p # t \<Rightarrow>
          if p = 0x2E then
            (if takeWhile is_digit t = [] then None
             else Some (p # takeWhile is_digit t, dropWhile is_digit t))
          else Some ([], s))"

definition parse_sign :: "jsstring \<Rightarrow> jsstring \<times> jsstring" where
  "parse_sign s =
     (case s of
        [] \<Rightarrow> ([], s)
      | x # t \<Rightarrow> if x = 0x2B \<or> x = 0x2D then ([x], t) else ([], s))"

definition parse_exp :: "jsstring \<Rightarrow> (jsstring \<times> jsstring) option" where
  "parse_exp s =
     (case s of
        [] \<Rightarrow> Some ([], s)
      | e # t \<Rightarrow>
          if e = 0x65 \<or> e = 0x45 then
            (case parse_sign t of
               (sg, t1) \<Rightarrow>
                 if takeWhile is_digit t1 = [] then None
                 else Some (e # sg @ takeWhile is_digit t1, dropWhile is_digit t1))
          else Some ([], s))"

definition parse_number :: "jsstring \<Rightarrow> (jsstring \<times> jsstring) option" where
  "parse_number s =
     (case (case s of [] \<Rightarrow> ([], s) | m # t \<Rightarrow> if m = 0x2D then ([m], t) else ([], s)) of
        (sg, s1) \<Rightarrow>
          (case parse_int s1 of
             None \<Rightarrow> None
           | Some (i, s2) \<Rightarrow>
               (case parse_frac s2 of
                  None \<Rightarrow> None
                | Some (f, s3) \<Rightarrow>
                    (case parse_exp s3 of
                       None \<Rightarrow> None
                     | Some (e, s4) \<Rightarrow> Some (sg @ i @ f @ e, s4)))))"

definition parse_literal :: "jsstring \<Rightarrow> json \<Rightarrow> jsstring \<Rightarrow> (json \<times> jsstring) option" where
  "parse_literal lit v s =
     (if take (length lit) s = lit then Some (v, drop (length lit) s) else None)"

text \<open>
  The recursive descent over values. The first argument bounds the number of nested
  calls; \<open>JSON_parse\<close> passes the length of the text, and every call consumes at
  least one character. An object is built with \<open>obj_define\<close>, so a repeated key keeps
  its first position and its last value, and \<^verbatim>\<open>__proto__\<close> is an own property.
\<close>

fun parse_value :: "nat \<Rightarrow> jsstring \<Rightarrow> (json \<times> jsstring) option"
  and parse_elements :: "nat \<Rightarrow> json list \<Rightarrow> jsstring \<Rightarrow> (json \<times> jsstring) option"
  and parse_members :: "nat \<Rightarrow> (jsstring \<times> json) list \<Rightarrow> jsstring \<Rightarrow> (json \<times> jsstring) option"
where
  "parse_value 0 s = None"
| "parse_value (Suc n) s =
     (case s of
        [] \<Rightarrow> None
      | c # r \<Rightarrow>
          if c = 0x7B then
            (case skip_ws r of
               [] \<Rightarrow> None
             | x # r1 \<Rightarrow> if x = 0x7D then Some (JObject [], r1) else parse_members n [] (x # r1))
          else if c = 0x5B then
            (case skip_ws r of
               [] \<Rightarrow> None
             | x # r1 \<Rightarrow> if x = 0x5D then Some (JArray [], r1) else parse_elements n [] (x # r1))
          else if c = 0x22 then
            (case parse_string r of None \<Rightarrow> None | Some (str, t) \<Rightarrow> Some (JString str, t))
          else if c = 0x74 then parse_literal (js ''true'') (JBool True) s
          else if c = 0x66 then parse_literal (js ''false'') (JBool False) s
          else if c = 0x6E then parse_literal (js ''null'') JNull s
          else (case parse_number s of None \<Rightarrow> None | Some (lexeme, t) \<Rightarrow> Some (JNumber lexeme, t)))"
| "parse_elements 0 acc s = None"
| "parse_elements (Suc n) acc s =
     (case parse_value n s of
        None \<Rightarrow> None
      | Some (v, r) \<Rightarrow>
          (case skip_ws r of
             [] \<Rightarrow> None
           | x # r1 \<Rightarrow>
               if x = 0x2C then parse_elements n (acc @ [v]) (skip_ws r1)
               else if x = 0x5D then Some (JArray (acc @ [v]), r1)
               else None))"
| "parse_members 0 acc s = None"
| "parse_members (Suc n) acc s =
     (case s of
        [] \<Rightarrow> None
      | q # r \<Rightarrow>
          if q \<noteq> 0x22 then None
          else
            (case parse_string r of
               None \<Rightarrow> None
             | Some (k, r1) \<Rightarrow>
                 (case skip_ws r1 of
                    [] \<Rightarrow> None
                  | col # r2 \<Rightarrow>
                      if col \<noteq> 0x3A then None
                      else
                        (case parse_value n (skip_ws r2) of
                           None \<Rightarrow> None
                         | Some (v, r3) \<Rightarrow>
                             (case skip_ws r3 of
                                [] \<Rightarrow> None
                              | x # r4 \<Rightarrow>
                                  if x = 0x2C then parse_members n (obj_define acc k v) (skip_ws r4)
                                  else if x = 0x7D then Some (JObject (obj_define acc k v), r4)
                                  else None)))))"

text \<open>\<^verbatim>\<open>JSON.parse(text)\<close>: one value between optional white space, or a SyntaxError.\<close>

definition JSON_parse :: "jsstring \<Rightarrow> error + json" where
  "JSON_parse s =
     (case parse_value (length s) (skip_ws s) of
        None \<Rightarrow> Inl SyntaxError
      | Some (v, r) \<Rightarrow> if skip_ws r = [] then Inr v else Inl SyntaxError)"

definition hex_digit :: "nat \<Rightarrow> code_unit" where
  "hex_digit n = (if n < 10 then of_nat (48 + n) else of_nat (87 + n))"

definition unicode_escape :: "code_unit \<Rightarrow> jsstring" where
  "unicode_escape c =
     [0x5C, 0x75, hex_digit (unat c div 4096), hex_digit ((unat c div 256) mod 16),
      hex_digit ((unat c div 16) mod 16), hex_digit (unat c mod 16)]"

definition quote_unit :: "code_unit \<Rightarrow> jsstring" where
  "quote_unit c =
     (if c = 0x08 then [0x5C, 0x62]
      else if c = 0x09 then [0x5C, 0x74]
      else if c = 0x0A then [0x5C, 0x6E]
      else if c = 0x0C then [0x5C, 0x66]
      else if c = 0x0D then [0x5C, 0x72]
      else if c = 0x22 then [0x5C, 0x22]
      else if c = 0x5C then [0x5C, 0x5C]
      else if c < 0x20 \<or> is_surrogate c then unicode_escape c
      else [c])"

text \<open>\<^verbatim>\<open>QuoteJSONString\<close> without the quotes: a surrogate pair is copied, a surrogate
  outside a pair is escaped.\<close>

fun quote_body :: "jsstring \<Rightarrow> jsstring" where
  "quote_body [] = []"
| "quote_body [c] = quote_unit c"
| "quote_body (c # d # r) =
     (if is_high_surrogate c \<and> is_low_surrogate d then c # d # quote_body r
      else quote_unit c @ quote_body (d # r))"

definition quote :: "jsstring \<Rightarrow> jsstring" where
  "quote s = 0x22 # quote_body s @ [0x22]"

fun stringify_members :: "(jsstring \<times> jsstring) list \<Rightarrow> jsstring" where
  "stringify_members [] = []"
| "stringify_members [(k, v)] = quote k @ 0x3A # quote v"
| "stringify_members ((k, v) # e # es) =
     quote k @ 0x3A # quote v @ 0x2C # stringify_members (e # es)"

text \<open>\<^verbatim>\<open>JSON.stringify(encrypted.encryptedKeys)\<close>, the call of the sender in
  \<^verbatim>\<open>sendMessage\<close>, on an object whose values are strings.\<close>

definition JSON_stringify :: "(jsstring \<times> jsstring) list \<Rightarrow> jsstring" where
  "JSON_stringify es = 0x7B # stringify_members es @ [0x7D]"

section \<open>The platform\<close>

text \<open>
  The cryptographic primitives and the DER codecs are parameters of the development:
  RSAES-OAEP with SHA-256 (encryption takes the random seed of the padding and fails on
  a message that is too long), AES-GCM with a 128-bit tag appended to the ciphertext,
  PBKDF2 with HMAC-SHA-256, and the SubjectPublicKeyInfo and PKCS#8 encodings of RSA
  keys. The same record holds what the engine decides for values the module does not
  produce itself: whether a number is non-zero, its string form, and the properties
  that a string or an array answers for.
\<close>

datatype jsval = Undefined | Native | Value json

record ('pub, 'priv) platform =
  rsa_oaep_encrypt :: "'pub \<Rightarrow> bytes \<Rightarrow> bytes \<Rightarrow> bytes option"
  rsa_oaep_decrypt :: "'priv \<Rightarrow> bytes \<Rightarrow> bytes option"
  aes_gcm_encrypt :: "bytes \<Rightarrow> bytes \<Rightarrow> bytes \<Rightarrow> bytes"
  aes_gcm_decrypt :: "bytes \<Rightarrow> bytes \<Rightarrow> bytes \<Rightarrow> bytes option"
  pbkdf2_sha256 :: "bytes \<Rightarrow> bytes \<Rightarrow> nat \<Rightarrow> nat \<Rightarrow> bytes"
  spki_encode :: "'pub \<Rightarrow> bytes"
  spki_decode :: "bytes \<Rightarrow> 'pub option"
  pkcs8_encode :: "'priv \<Rightarrow> bytes"
  pkcs8_decode :: "bytes \<Rightarrow> 'priv option"
  rsa_generate :: "bytes \<Rightarrow> 'pub \<times> 'priv"
  number_truthy :: "jsstring \<Rightarrow> bool"
  number_to_string :: "jsstring \<Rightarrow> jsstring"
  exotic_get :: "json \<Rightarrow> jsstring \<Rightarrow> jsval"
  argument_limit :: nat

subsection \<open>\<^verbatim>\<open>String.fromCharCode\<close> on a spread buffer\<close>

text \<open>
  \<^verbatim>\<open>String.fromCharCode(...new Uint8Array(buf))\<close> passes every byte of the buffer as
  one argument of a single call. An engine accepts a bounded number of arguments,
  \<open>argument_limit\<close>, and throws a RangeError beyond it. Within the bound the result
  has one code unit per byte.
\<close>

definition fromCharCode :: "('pub, 'priv) platform \<Rightarrow> bytes \<Rightarrow> error + jsstring" where
  "fromCharCode pf bs =
     (if argument_limit pf < length bs then Inl RangeError else Inr (map ucast bs))"

subsection \<open>Randomness\<close>

text \<open>The random source is a tape of bytes; a draw returns its first \<open>n\<close> bytes and
  the rest of the tape.\<close>

type_synonym rng = "nat \<Rightarrow> byte"

definition getRandomValues :: "nat \<Rightarrow> rng \<Rightarrow> bytes \<times> rng" where
  "getRandomValues n g = (map g [0..<n], \<lambda>i. g (i + n))"

subsection \<open>\<^verbatim>\<open>CryptoKey\<close> and \<^verbatim>\<open>crypto.subtle\<close>\<close>

text \<open>A key carries its material, which fixes its algorithm and its type, the
  extractable flag and its usages. The model has the keys of the four algorithms the
  module names.\<close>

datatype usage = Encrypt | Decrypt | DeriveKey

datatype ('pub, 'priv) key_material =
    RsaOaepPublic 'pub
  | RsaOaepPrivate 'priv
  | AesGcmKey bytes
  | Pbkdf2Key bytes

record ('pub, 'priv) CryptoKey =
  material :: "('pub, 'priv) key_material"
  extractable :: bool
  usages :: "usage list"

text \<open>\<^verbatim>\<open>exportKey('spki', key)\<close>\<close>

definition subtle_exportKey_spki ::
  "('pub, 'priv) platform \<Rightarrow> ('pub, 'priv) CryptoKey \<Rightarrow> error + bytes" where
  "subtle_exportKey_spki pf key =
     (case material key of
        Pbkdf2Key raw \<Rightarrow> Inl NotSupportedError
      | AesGcmKey raw \<Rightarrow> if extractable key then Inl NotSupportedError else Inl InvalidAccessError
      | RsaOaepPrivate d \<Rightarrow> Inl InvalidAccessError
      | RsaOaepPublic p \<Rightarrow>
          if extractable key then Inr (spki_encode pf p) else Inl InvalidAccessError)"

text \<open>\<^verbatim>\<open>exportKey('pkcs8', key)\<close>\<close>

definition subtle_exportKey_pkcs8 ::
  "('pub, 'priv) platform \<Rightarrow> ('pub, 'priv) CryptoKey \<Rightarrow> error + bytes" where
  "subtle_exportKey_pkcs8 pf key =
     (case material key of
        Pbkdf2Key raw \<Rightarrow> Inl NotSupportedError
      | AesGcmKey raw \<Rightarrow> if extractable key then Inl NotSupportedError else Inl InvalidAccessError
      | RsaOaepPublic p \<Rightarrow> Inl InvalidAccessError
      | RsaOaepPrivate d \<Rightarrow>
          if extractable key then Inr (pkcs8_encode pf d) else Inl InvalidAccessError)"

text \<open>\<^verbatim>\<open>exportKey('raw', key)\<close>\<close>

definition subtle_exportKey_raw :: "('pub, 'priv) CryptoKey \<Rightarrow> error + bytes" where
  "subtle_exportKey_raw key =
     (case material key of
        Pbkdf2Key raw \<Rightarrow> Inl NotSupportedError
      | AesGcmKey raw \<Rightarrow> if extractable key then Inr raw else Inl InvalidAccessError
      | RsaOaepPublic p \<Rightarrow>
          if extractable key then Inl NotSupportedError else Inl InvalidAccessError
      | RsaOaepPrivate d \<Rightarrow>
          if extractable key then Inl NotSupportedError else Inl InvalidAccessError)"

text \<open>\<^verbatim>\<open>importKey('spki', data, {name: 'RSA-OAEP', hash: 'SHA-256'}, extractable, usages)\<close>\<close>

definition subtle_importKey_spki ::
  "('pub, 'priv) platform \<Rightarrow> bytes \<Rightarrow> bool \<Rightarrow> usage list \<Rightarrow> error + ('pub, 'priv) CryptoKey" where
  "subtle_importKey_spki pf dat ext us =
     (if list_ex (\<lambda>u. u \<noteq> Encrypt) us then Inl SyntaxError
      else (case spki_decode pf dat of
              None \<Rightarrow> Inl DataError
            | Some p \<Rightarrow> Inr \<lparr>material = RsaOaepPublic p, extractable = ext, usages = us\<rparr>))"

text \<open>\<^verbatim>\<open>importKey('pkcs8', data, {name: 'RSA-OAEP', hash: 'SHA-256'}, extractable, usages)\<close>\<close>

definition subtle_importKey_pkcs8 ::
  "('pub, 'priv) platform \<Rightarrow> bytes \<Rightarrow> bool \<Rightarrow> usage list \<Rightarrow> error + ('pub, 'priv) CryptoKey" where
  "subtle_importKey_pkcs8 pf dat ext us =
     (if list_ex (\<lambda>u. u \<noteq> Decrypt) us then Inl SyntaxError
      else (case pkcs8_decode pf dat of
              None \<Rightarrow> Inl DataError
            | Some d \<Rightarrow>
                if us = [] then Inl SyntaxError
                else Inr \<lparr>material = RsaOaepPrivate d, extractable = ext, usages = us\<rparr>))"

text \<open>\<^verbatim>\<open>importKey('raw', data, 'PBKDF2', false, ['deriveKey'])\<close>\<close>

definition subtle_importKey_pbkdf2 :: "bytes \<Rightarrow> ('pub, 'priv) CryptoKey" where
  "subtle_importKey_pbkdf2 dat = \<lparr>material = Pbkdf2Key dat, extractable = False, usages = [DeriveKey]\<rparr>"

text \<open>\<^verbatim>\<open>importKey('raw', data, {name: 'AES-GCM', length: 256}, false, ['decrypt'])\<close>:
  the key has 128, 192 or 256 bits.\<close>

definition subtle_importKey_aes :: "bytes \<Rightarrow> usage list \<Rightarrow> error + ('pub, 'priv) CryptoKey" where
  "subtle_importKey_aes dat us =
     (if length dat = 16 \<or> length dat = 24 \<or> length dat = 32
      then Inr \<lparr>material = AesGcmKey dat, extractable = False, usages = us\<rparr>
      else Inl DataError)"

text \<open>\<^verbatim>\<open>deriveKey({name: 'PBKDF2', salt, iterations, hash: 'SHA-256'}, keyMaterial,
  {name: 'AES-GCM', length: 256}, false, usages)\<close>\<close>

definition subtle_deriveKey ::
  "('pub, 'priv) platform \<Rightarrow> bytes \<Rightarrow> nat \<Rightarrow> ('pub, 'priv) CryptoKey \<Rightarrow> usage list \<Rightarrow>
   error + ('pub, 'priv) CryptoKey" where
  "subtle_deriveKey pf salt iterations keyMaterial us =
     (case material keyMaterial of
        Pbkdf2Key password \<Rightarrow>
          if DeriveKey \<notin> set (usages keyMaterial) then Inl InvalidAccessError
          else if iterations = 0 then Inl OperationError
          else Inr \<lparr>material = AesGcmKey (pbkdf2_sha256 pf password salt iterations 256),
                    extractable = False, usages = us\<rparr>
      | _ \<Rightarrow> Inl InvalidAccessError)"

text \<open>\<^verbatim>\<open>generateKey({name: 'AES-GCM', length: 256}, true, ['encrypt'])\<close>\<close>

definition subtle_generateKey_aes :: "rng \<Rightarrow> ('pub, 'priv) CryptoKey \<times> rng" where
  "subtle_generateKey_aes g =
     (case getRandomValues 32 g of
        (raw, g1) \<Rightarrow> (\<lparr>material = AesGcmKey raw, extractable = True, usages = [Encrypt]\<rparr>, g1))"

text \<open>\<^verbatim>\<open>encrypt({name: 'AES-GCM', iv}, key, data)\<close>\<close>

definition subtle_encrypt_aes ::
  "('pub, 'priv) platform \<Rightarrow> bytes \<Rightarrow> ('pub, 'priv) CryptoKey \<Rightarrow> bytes \<Rightarrow> error + bytes" where
  "subtle_encrypt_aes pf iv key dat =
     (case material key of
        AesGcmKey raw \<Rightarrow>
          if Encrypt \<in> set (usages key) then Inr (aes_gcm_encrypt pf raw iv dat)
          else Inl InvalidAccessError
      | _ \<Rightarrow> Inl InvalidAccessError)"

text \<open>\<^verbatim>\<open>decrypt({name: 'AES-GCM', iv}, key, data)\<close>\<close>

definition subtle_decrypt_aes ::
  "('pub, 'priv) platform \<Rightarrow> bytes \<Rightarrow> ('pub, 'priv) CryptoKey \<Rightarrow> bytes \<Rightarrow> error + bytes" where
  "subtle_decrypt_aes pf iv key dat =
     (case material key of
        AesGcmKey raw \<Rightarrow>
          if Decrypt \<in> set (usages key) then
            (case aes_gcm_decrypt pf raw iv dat of
               None \<Rightarrow> Inl OperationError
             | Some plain \<Rightarrow> Inr plain)
          else Inl InvalidAccessError
      | _ \<Rightarrow> Inl InvalidAccessError)"

text \<open>\<^verbatim>\<open>encrypt({name: 'RSA-OAEP'}, key, data)\<close>; the seed of the padding is drawn
  from the random source.\<close>

definition subtle_encrypt_rsa ::
  "('pub, 'priv) platform \<Rightarrow> rng \<Rightarrow> ('pub, 'priv) CryptoKey \<Rightarrow> bytes \<Rightarrow> error + (bytes \<times> rng)" where
  "subtle_encrypt_rsa pf g key dat =
     (case material key of
        RsaOaepPublic p \<Rightarrow>
          if Encrypt \<in> set (usages key) then
            (case getRandomValues 32 g of
               (seed, g1) \<Rightarrow>
                 (case rsa_oaep_encrypt pf p seed dat of
                    None \<Rightarrow> Inl OperationError
                  | Some c \<Rightarrow> Inr (c, g1)))
          else Inl InvalidAccessError
      | _ \<Rightarrow> Inl InvalidAccessError)"

text \<open>\<^verbatim>\<open>decrypt({name: 'RSA-OAEP'}, key, data)\<close>\<close>

definition subtle_decrypt_rsa ::
  "('pub, 'priv) platform \<Rightarrow> ('pub, 'priv) CryptoKey \<Rightarrow> bytes \<Rightarrow> error + bytes" where
  "subtle_decrypt_rsa pf key dat =
     (case material key of
        RsaOaepPrivate d \<Rightarrow>
          if Decrypt \<in> set (usages key) then
            (case rsa_oaep_decrypt pf d dat of
               None \<Rightarrow> Inl OperationError
             | Some plain \<Rightarrow> Inr plain)
          else Inl InvalidAccessError
      | _ \<Rightarrow> Inl InvalidAccessError)"

subsection \<open>Property access on a parsed value\<close>

definition number_prototype_names :: "jsstring list" where
  "number_prototype_names =
     object_prototype_names @ map js [''toExponential'', ''toFixed'', ''toPrecision'']"

text \<open>
  \<^verbatim>\<open>parsedKeys[myUserId]\<close>. On \<^verbatim>\<open>null\<close> the access throws. On an object the own
  property wins; a name found on the prototype chain yields a built-in function or
  object (\<open>Native\<close>); any other name yields \<^verbatim>\<open>undefined\<close>. A boolean or a number has
  no own properties.
\<close>

definition js_get :: "('pub, 'priv) platform \<Rightarrow> json \<Rightarrow> jsstring \<Rightarrow> error + jsval" where
  "js_get pf v k =
     (case v of
        JNull \<Rightarrow> Inl TypeError
      | JObject es \<Rightarrow>
          Inr (case map_of es k of
                 Some x \<Rightarrow> Value x
               | None \<Rightarrow> if k \<in> set object_prototype_names then Native else Undefined)
      | JBool b \<Rightarrow> Inr (if k \<in> set object_prototype_names then Native else Undefined)
      | JNumber n \<Rightarrow> Inr (if k \<in> set number_prototype_names then Native else Undefined)
      | JString s \<Rightarrow> Inr (exotic_get pf v k)
      | JArray xs \<Rightarrow> Inr (exotic_get pf v k))"

text \<open>\<^verbatim>\<open>Object.values(parsedKeys)[0]\<close>\<close>

definition first_value :: "json \<Rightarrow> error + jsval" where
  "first_value v =
     (case v of
        JNull \<Rightarrow> Inl TypeError
      | JObject es \<Rightarrow> Inr (case es of [] \<Rightarrow> Undefined | e # r \<Rightarrow> Value (snd e))
      | JArray xs \<Rightarrow> Inr (case xs of [] \<Rightarrow> Undefined | x # r \<Rightarrow> Value x)
      | JString s \<Rightarrow> Inr (case s of [] \<Rightarrow> Undefined | c # r \<Rightarrow> Value (JString [c]))
      | JBool b \<Rightarrow> Inr Undefined
      | JNumber n \<Rightarrow> Inr Undefined)"

definition truthy :: "('pub, 'priv) platform \<Rightarrow> jsval \<Rightarrow> bool" where
  "truthy pf v =
     (case v of
        Undefined \<Rightarrow> False
      | Native \<Rightarrow> True
      | Value JNull \<Rightarrow> False
      | Value (JBool b) \<Rightarrow> b
      | Value (JNumber n) \<Rightarrow> number_truthy pf n
      | Value (JString s) \<Rightarrow> s \<noteq> []
      | Value (JArray xs) \<Rightarrow> True
      | Value (JObject es) \<Rightarrow> True)"

fun join_comma :: "jsstring list \<Rightarrow> jsstring" where
  "join_comma [] = []"
| "join_comma [x] = x"
| "join_comma (x # y # r) = x @ 0x2C # join_comma (y # r)"

text \<open>The string a value is converted to when it is passed where a string is expected.\<close>

fun to_string :: "('pub, 'priv) platform \<Rightarrow> json \<Rightarrow> jsstring" where
  "to_string pf JNull = js ''null''"
| "to_string pf (JBool b) = (if b then js ''true'' else js ''false'')"
| "to_string pf (JNumber n) = number_to_string pf n"
| "to_string pf (JString s) = s"
| "to_string pf (JArray xs) =
     join_comma (map (\<lambda>x. if x = JNull then [] else to_string pf x) xs)"
| "to_string pf (JObject es) = js ''[object Object]''"

text \<open>\<^verbatim>\<open>atob(v)\<close> for a value that need not be a string. The text of a built-in
  function and of \<^verbatim>\<open>Object.prototype\<close> has characters outside the alphabet.\<close>

definition atob_value :: "('pub, 'priv) platform \<Rightarrow> jsval \<Rightarrow> error + jsstring" where
  "atob_value pf v =
     (case v of
        Undefined \<Rightarrow> atob (js ''undefined'')
      | Native \<Rightarrow> Inl InvalidCharacterError
      | Value j \<Rightarrow> atob (to_string pf j))"

section \<open>The module \<^verbatim>\<open>crypto.ts\<close>\<close>

subsection \<open>The object store\<close>

text \<open>
  The store \<^verbatim>\<open>keypairs\<close> of the database \<^verbatim>\<open>vaultchat-keys\<close> maps a user identifier to
  the object written for it. A stored object is the list of its properties.
  \<^verbatim>\<open>put(value, key)\<close> replaces what the key held.
\<close>

type_synonym stored_object = "(string \<times> bytes) list"
type_synonym keystore = "jsstring \<rightharpoonup> stored_object"

definition store_put :: "keystore \<Rightarrow> stored_object \<Rightarrow> jsstring \<Rightarrow> keystore" where
  "store_put db obj k = db(k \<mapsto> obj)"

definition store_get :: "keystore \<Rightarrow> jsstring \<Rightarrow> stored_object option" where
  "store_get db k = db k"

text \<open>Reading a property of a stored object and passing it to \<^verbatim>\<open>crypto.subtle\<close>
  as a buffer: a missing property is \<^verbatim>\<open>undefined\<close>, which is not a buffer.\<close>

definition buffer_field :: "stored_object \<Rightarrow> string \<Rightarrow> error + bytes" where
  "buffer_field obj name = (case map_of obj name of None \<Rightarrow> Inl TypeError | Some b \<Rightarrow> Inr b)"

subsection \<open>Key pairs and the public-key codec\<close>

text \<open>\<^verbatim>\<open>generateKeyPair\<close>: a 2048-bit key pair, both keys extractable.\<close>

definition generateKeyPair ::
  "('pub, 'priv) platform \<Rightarrow> rng \<Rightarrow>
   (('pub, 'priv) CryptoKey \<times> ('pub, 'priv) CryptoKey) \<times> rng" where
  "generateKeyPair pf g =
     (case getRandomValues 256 g of
        (seed, g1) \<Rightarrow>
          (case rsa_generate pf seed of
             (p, d) \<Rightarrow>
               ((\<lparr>material = RsaOaepPublic p, extractable = True, usages = [Encrypt]\<rparr>,
                 \<lparr>material = RsaOaepPrivate d, extractable = True, usages = [Decrypt]\<rparr>), g1)))"

definition exportPublicKey ::
  "('pub, 'priv) platform \<Rightarrow> ('pub, 'priv) CryptoKey \<Rightarrow> error + jsstring" where
  "exportPublicKey pf key =
     (case subtle_exportKey_spki pf key of
        Inl e \<Rightarrow> Inl e
      | Inr exported \<Rightarrow>
          (case fromCharCode pf exported of
             Inl e \<Rightarrow> Inl e
           | Inr binary \<Rightarrow> btoa binary))"

definition importPublicKey ::
  "('pub, 'priv) platform \<Rightarrow> jsstring \<Rightarrow> error + ('pub, 'priv) CryptoKey" where
  "importPublicKey pf base64 =
     (case atob base64 of
        Inl e \<Rightarrow> Inl e
      | Inr binary \<Rightarrow> subtle_importKey_spki pf (charCodes binary) False [Encrypt])"

subsection \<open>The vault\<close>

definition encryptPrivateKey ::
  "('pub, 'priv) platform \<Rightarrow> rng \<Rightarrow> ('pub, 'priv) CryptoKey \<Rightarrow> jsstring \<Rightarrow>
   error + ((bytes \<times> bytes \<times> bytes) \<times> rng)" where
  "encryptPrivateKey pf g privateKey password =
     (case getRandomValues 16 g of
        (salt, g1) \<Rightarrow>
          (case getRandomValues 12 g1 of
             (iv, g2) \<Rightarrow>
               (case subtle_deriveKey pf salt 100000
                       (subtle_importKey_pbkdf2 (TextEncoder_encode password)) [Encrypt] of
                  Inl e \<Rightarrow> Inl e
                | Inr derivedKey \<Rightarrow>
                    (case subtle_exportKey_pkcs8 pf privateKey of
                       Inl e \<Rightarrow> Inl e
                     | Inr exported \<Rightarrow>
                         (case subtle_encrypt_aes pf iv derivedKey exported of
                            Inl e \<Rightarrow> Inl e
                          | Inr encrypted \<Rightarrow> Inr ((encrypted, salt, iv), g2))))))"

definition decryptPrivateKey ::
  "('pub, 'priv) platform \<Rightarrow> bytes \<Rightarrow> bytes \<Rightarrow> bytes \<Rightarrow> jsstring \<Rightarrow>
   error + ('pub, 'priv) CryptoKey" where
  "decryptPrivateKey pf encrypted salt iv password =
     (case subtle_deriveKey pf salt 100000
             (subtle_importKey_pbkdf2 (TextEncoder_encode password)) [Decrypt] of
        Inl e \<Rightarrow> Inl e
      | Inr derivedKey \<Rightarrow>
          (case subtle_decrypt_aes pf iv derivedKey encrypted of
             Inl e \<Rightarrow> Inl e
           | Inr decrypted \<Rightarrow> subtle_importKey_pkcs8 pf decrypted False [Decrypt]))"

text \<open>\<^verbatim>\<open>storePrivateKey\<close> writes the object \<^verbatim>\<open>{ encrypted, salt, iv }\<close> under the key
  \<^verbatim>\<open>userId\<close>.\<close>

definition storePrivateKey ::
  "('pub, 'priv) platform \<Rightarrow> rng \<Rightarrow> keystore \<Rightarrow> jsstring \<Rightarrow> ('pub, 'priv) CryptoKey \<Rightarrow> jsstring \<Rightarrow>
   error + (keystore \<times> rng)" where
  "storePrivateKey pf g db userId privateKey password =
     (case encryptPrivateKey pf g privateKey password of
        Inl e \<Rightarrow> Inl e
      | Inr ((encrypted, salt, iv), g1) \<Rightarrow>
          Inr (store_put db [(''encrypted'', encrypted), (''salt'', salt), (''iv'', iv)] userId, g1))"

text \<open>\<^verbatim>\<open>retrievePrivateKey\<close> returns \<^verbatim>\<open>null\<close>, here \<open>None\<close>, when the store has no
  object for \<^verbatim>\<open>userId\<close>.\<close>

definition retrievePrivateKey ::
  "('pub, 'priv) platform \<Rightarrow> keystore \<Rightarrow> jsstring \<Rightarrow> jsstring \<Rightarrow>
   error + ('pub, 'priv) CryptoKey option" where
  "retrievePrivateKey pf db userId password =
     (case store_get db userId of
        None \<Rightarrow> Inr None
      | Some dat \<Rightarrow>
          (case buffer_field dat ''salt'' of
             Inl e \<Rightarrow> Inl e
           | Inr salt \<Rightarrow>
               (case buffer_field dat ''iv'' of
                  Inl e \<Rightarrow> Inl e
                | Inr iv \<Rightarrow>
                    (case buffer_field dat ''encrypted'' of
                       Inl e \<Rightarrow> Inl e
                     | Inr encrypted \<Rightarrow>
                         (case decryptPrivateKey pf encrypted salt iv password of
                            Inl e \<Rightarrow> Inl e
                          | Inr key \<Rightarrow> Inr (Some key))))))"

definition hasPrivateKey :: "keystore \<Rightarrow> jsstring \<Rightarrow> bool" where
  "hasPrivateKey db userId = (store_get db userId \<noteq> None)"

subsection \<open>Envelopes\<close>

text \<open>The object returned by \<^verbatim>\<open>encryptMessage\<close>; its properties \<^verbatim>\<open>ciphertext\<close> and
  \<^verbatim>\<open>iv\<close> hold base64 text.\<close>

record envelope =
  ciphertext_b64 :: jsstring
  encryptedKeys :: "(jsstring \<times> jsstring) list"
  iv_b64 :: jsstring

text \<open>The loop of \<^verbatim>\<open>encryptMessage\<close> over \<^verbatim>\<open>Object.entries(publicKeys)\<close>: the same
  exported key is encrypted for each entry and assigned to \<^verbatim>\<open>encryptedKeys[id]\<close>.\<close>

fun wrap_for_recipients ::
  "('pub, 'priv) platform \<Rightarrow> rng \<Rightarrow> bytes \<Rightarrow> (jsstring \<times> ('pub, 'priv) CryptoKey) list \<Rightarrow>
   (jsstring \<times> jsstring) list \<Rightarrow> error + ((jsstring \<times> jsstring) list \<times> rng)" where
  "wrap_for_recipients pf g exportedAesKey [] acc = Inr (acc, g)"
| "wrap_for_recipients pf g exportedAesKey ((ident, key) # rest) acc =
     (case subtle_encrypt_rsa pf g key exportedAesKey of
        Inl e \<Rightarrow> Inl e
      | Inr (encryptedKeyBuf, g1) \<Rightarrow>
          (case fromCharCode pf encryptedKeyBuf of
             Inl e \<Rightarrow> Inl e
           | Inr binary \<Rightarrow>
               (case btoa binary of
                  Inl e \<Rightarrow> Inl e
                | Inr b64 \<Rightarrow>
                    wrap_for_recipients pf g1 exportedAesKey rest (obj_assign acc ident b64))))"

definition encryptMessage ::
  "('pub, 'priv) platform \<Rightarrow> rng \<Rightarrow> jsstring \<Rightarrow> (jsstring \<times> ('pub, 'priv) CryptoKey) list \<Rightarrow>
   error + (envelope \<times> rng)" where
  "encryptMessage pf g plaintext publicKeys =
     (case subtle_generateKey_aes g of
        (aesKey, g1) \<Rightarrow>
          (case getRandomValues 12 g1 of
             (ivArr, g2) \<Rightarrow>
               (case subtle_encrypt_aes pf ivArr aesKey (TextEncoder_encode plaintext) of
                  Inl e \<Rightarrow> Inl e
                | Inr ciphertextBuf \<Rightarrow>
                    (case subtle_exportKey_raw aesKey of
                       Inl e \<Rightarrow> Inl e
                     | Inr exportedAesKey \<Rightarrow>
                         (case wrap_for_recipients pf g2 exportedAesKey publicKeys [] of
                            Inl e \<Rightarrow> Inl e
                          | Inr (keys, g3) \<Rightarrow>
                              (case fromCharCode pf ciphertextBuf of
                                 Inl e \<Rightarrow> Inl e
                               | Inr ctBinary \<Rightarrow>
                                   (case btoa ctBinary of
                                      Inl e \<Rightarrow> Inl e
                                    | Inr ct \<Rightarrow>
                                        (case fromCharCode pf ivArr of
                                           Inl e \<Rightarrow> Inl e
                                         | Inr ivBinary \<Rightarrow>
                                             (case btoa ivBinary of
                                                Inl e \<Rightarrow> Inl e
                                              | Inr ivs \<Rightarrow>
                                                  Inr (\<lparr>ciphertext_b64 = ct, encryptedKeys = keys,
                                                        iv_b64 = ivs\<rparr>, g3))))))))))"

text \<open>
  Step 1 of \<^verbatim>\<open>decryptMessage\<close>: the value bound to \<^verbatim>\<open>encryptedKeyB64\<close>. Whatever
  is thrown inside the \<^verbatim>\<open>try\<close> block, by \<^verbatim>\<open>JSON.parse\<close> or by the property access,
  selects the legacy branch.
\<close>

definition resolveEncryptedKey :: "('pub, 'priv) platform \<Rightarrow> jsstring \<Rightarrow> jsstring \<Rightarrow> jsval" where
  "resolveEncryptedKey pf encryptedKeyData myUserId =
     (case JSON_parse encryptedKeyData of
        Inl e \<Rightarrow> Value (JString encryptedKeyData)
      | Inr parsedKeys \<Rightarrow>
          (case js_get pf parsedKeys myUserId of
             Inl e \<Rightarrow> Value (JString encryptedKeyData)
           | Inr own \<Rightarrow>
               if truthy pf own then own
               else (case first_value parsedKeys of
                       Inl e \<Rightarrow> Value (JString encryptedKeyData)
                     | Inr v \<Rightarrow> v)))"

text \<open>Steps 2 to 4 of \<^verbatim>\<open>decryptMessage\<close>, from the resolved value on.\<close>

definition decryptWithKey ::
  "('pub, 'priv) platform \<Rightarrow> jsstring \<Rightarrow> jsval \<Rightarrow> jsstring \<Rightarrow> ('pub, 'priv) CryptoKey \<Rightarrow>
   error + jsstring" where
  "decryptWithKey pf ciphertext encryptedKeyB64 iv privateKey =
     (case atob ciphertext of
        Inl e \<Rightarrow> Inl e
      | Inr ctBin \<Rightarrow>
          (case atob_value pf encryptedKeyB64 of
             Inl e \<Rightarrow> Inl e
           | Inr keyBin \<Rightarrow>
               (case atob iv of
                  Inl e \<Rightarrow> Inl e
                | Inr ivBin \<Rightarrow>
                    (case subtle_decrypt_rsa pf privateKey (charCodes keyBin) of
                       Inl e \<Rightarrow> Inl e
                     | Inr aesKeyBuf \<Rightarrow>
                         (case subtle_importKey_aes aesKeyBuf [Decrypt] of
                            Inl e \<Rightarrow> Inl e
                          | Inr aesKey \<Rightarrow>
                              (case subtle_decrypt_aes pf (charCodes ivBin) aesKey (charCodes ctBin) of
                                 Inl e \<Rightarrow> Inl e
                               | Inr decrypted \<Rightarrow> Inr (TextDecoder_decode decrypted)))))))"

definition decryptMessage ::
  "('pub, 'priv) platform \<Rightarrow> jsstring \<Rightarrow> jsstring \<Rightarrow> jsstring \<Rightarrow> ('pub, 'priv) CryptoKey \<Rightarrow>
   jsstring \<Rightarrow> error + jsstring" where
  "decryptMessage pf ciphertext encryptedKeyData iv privateKey myUserId =
     decryptWithKey pf ciphertext (resolveEncryptedKey pf encryptedKeyData myUserId) iv privateKey"

section \<open>What is assumed of the primitives\<close>

text \<open>A private key \<open>d\<close> belongs to a public key \<open>p\<close> when decryption under \<open>d\<close>
  returns the message of every encryption under \<open>p\<close>; a ciphertext is never empty.\<close>

definition rsa_key_pair :: "('pub, 'priv) platform \<Rightarrow> 'pub \<Rightarrow> 'priv \<Rightarrow> bool" where
  "rsa_key_pair pf p d \<longleftrightarrow>
     (\<forall>seed m c. rsa_oaep_encrypt pf p seed m = Some c \<longrightarrow>
                 c \<noteq> [] \<and> rsa_oaep_decrypt pf d c = Some m)"

text \<open>AES-GCM decryption with the key and the IV of the encryption returns the
  plaintext.\<close>

definition aes_gcm_correct :: "('pub, 'priv) platform \<Rightarrow> bool" where
  "aes_gcm_correct pf \<longleftrightarrow>
     (\<forall>k iv p. aes_gcm_decrypt pf k iv (aes_gcm_encrypt pf k iv p) = Some p)"

subsection \<open>An instance with transparent primitives\<close>

text \<open>
  The definitions are run on concrete inputs with this instance. A key is one byte and
  a private key belongs to the public key with the same byte; an RSA ciphertext is the
  key byte followed by the message; an AES-GCM ciphertext is the key, the IV and the
  plaintext, and decryption checks the key and the IV; the derived key is cut from the
  password, the salt and zeros; a call takes at most 65536 arguments.
\<close>

definition ref_platform :: "(byte, byte) platform" where
  "ref_platform =
     \<lparr>rsa_oaep_encrypt = (\<lambda>p seed m. if length m \<le> 190 then Some (p # m) else None),
      rsa_oaep_decrypt = (\<lambda>d c. case c of [] \<Rightarrow> None | t # m \<Rightarrow> if t = d then Some m else None),
      aes_gcm_encrypt = (\<lambda>k iv p. k @ iv @ p),
      aes_gcm_decrypt = (\<lambda>k iv c. if take (length k + length iv) c = k @ iv
                                    then Some (drop (length k + length iv) c) else None),
      pbkdf2_sha256 = (\<lambda>password salt iterations bits.
                         take (bits div 8) (password @ salt @ replicate (bits div 8) 0)),
      spki_encode = (\<lambda>p. [0x30, p]),
      spki_decode = (\<lambda>bs. case bs of [a, b] \<Rightarrow> if a = 0x30 then Some b else None | _ \<Rightarrow> None),
      pkcs8_encode = (\<lambda>d. [0x30, 0x82, d]),
      pkcs8_decode = (\<lambda>bs. case bs of [a, b, c] \<Rightarrow> if a = 0x30 \<and> b = 0x82 then Some c else None
                                      | _ \<Rightarrow> None),
      rsa_generate = (\<lambda>seed. case seed of [] \<Rightarrow> (0, 0) | b # r \<Rightarrow> (b, b)),
      number_truthy = (\<lambda>lexeme. list_ex (\<lambda>c. 0x31 \<le> c \<and> c \<le> 0x39) lexeme),
      number_to_string = (\<lambda>lexeme. lexeme),
      exotic_get = (\<lambda>v k. Undefined),
      argument_limit = 65536\<rparr>"

text \<open>A tape for the random source: byte \<open>i\<close> is \<open>i\<close> modulo 256.\<close>

definition ref_rng :: rng where
  "ref_rng = (\<lambda>i. of_nat i)"

section \<open>Notions used in the proofs\<close>

text \<open>The 6-bit groups of a byte sequence, before they are mapped to characters.\<close>

fun sextets :: "bytes \<Rightarrow> nat list" where
  "sextets [] = []"
| "sextets [a] = [unat a div 4, (unat a mod 4) * 16]"
| "sextets [a, b] = [unat a div 4, (unat a mod 4) * 16 + unat b div 16, (unat b mod 16) * 4]"
| "sextets (a # b # c # r) =
     (unat a div 4) # ((unat a mod 4) * 16 + unat b div 16) #
     ((unat b mod 16) * 4 + unat c div 64) # (unat c mod 64) # sextets r"

text \<open>One member \<^verbatim>\<open>"k":"v"\<close> of the text written by \<open>JSON_stringify\<close>, followed
  by the rest of the text.\<close>

definition member_text :: "jsstring \<Rightarrow> jsstring \<Rightarrow> jsstring \<Rightarrow> jsstring" where
  "member_text k v t = 0x22 # quote_body k @ 0x22 # 0x3A # 0x22 # quote_body v @ 0x22 # t"

text \<open>The object \<open>parse_members\<close> builds from the members of a string-valued object.\<close>

definition define_all :: "(jsstring \<times> jsstring) list \<Rightarrow> (jsstring \<times> json) list \<Rightarrow> (jsstring \<times> json) list" where
  "define_all es acc = fold (\<lambda>e a. obj_define a (fst e) (JString (snd e))) es acc"

text \<open>
  The order of own properties: an array index comes before a key that is none, array
  indices ascend, and two other keys are different. A list of properties is in own
  order when every key comes before each later key.
\<close>

definition key_before :: "jsstring \<Rightarrow> jsstring \<Rightarrow> bool" where
  "key_before a b =
     (case array_index a of
        Some m \<Rightarrow> (case array_index b of Some n \<Rightarrow> m < n | None \<Rightarrow> True)
      | None \<Rightarrow> (case array_index b of Some n \<Rightarrow> False | None \<Rightarrow> a \<noteq> b))"

definition own_order :: "(jsstring \<times> 'v) list \<Rightarrow> bool" where
  "own_order es = sorted_wrt key_before (map fst es)"

text \<open>The characters of a JSON number, and the characters of base64 text.\<close>

definition number_char :: "code_unit \<Rightarrow> bool" where
  "number_char c \<longleftrightarrow> is_digit c \<or> c = 0x2D \<or> c = 0x2B \<or> c = 0x2E \<or> c = 0x65 \<or> c = 0x45"

definition b64_text_char :: "code_unit \<Rightarrow> bool" where
  "b64_text_char c \<longleftrightarrow> b64_val c \<noteq> None \<or> c = b64_pad"

section \<open>Base64: decoding what was encoded\<close>

lemma unat_byte_less: "unat (a :: byte) < 256"
  using unsigned_less [of a, where 'a = nat] by simp

lemma sextets_bound: "\<forall>n \<in> set (sextets bs). n < 64"
proof (induction bs rule: sextets.induct)
  case 1 show ?case by simp
next
  case (2 a) show ?case using unat_byte_less [of a] by auto
next
  case (3 a b) show ?case using unat_byte_less [of a] unat_byte_less [of b] by auto
next
  case (4 a b c r)
  show ?case using 4 unat_byte_less [of a] unat_byte_less [of b] unat_byte_less [of c] by auto
qed

lemma unat_cu_of_nat: "m < 65536 \<Longrightarrow> unat (of_nat m :: code_unit) = m"
  by (simp add: unat_of_nat)

lemma unat_b64_char:
  "n < 64 \<Longrightarrow> unat (b64_char n) =
     (if n < 26 then 65 + n else if n < 52 then 97 + (n - 26) else if n < 62 then 48 + (n - 52)
      else if n = 62 then 43 else 47)"
  unfolding b64_char_def
  using unat_cu_of_nat [of "65 + n"] unat_cu_of_nat [of "97 + (n - 26)"]
    unat_cu_of_nat [of "48 + (n - 52)"]
  by auto

lemma b64_val_char: "n < 64 \<Longrightarrow> b64_val (b64_char n) = Some n"
  unfolding b64_val_def Let_def by (simp only: unat_b64_char) (auto split: if_splits)

lemma b64_char_not_pad: "n < 64 \<Longrightarrow> b64_char n \<noteq> b64_pad"
proof
  assume n: "n < 64" and "b64_char n = b64_pad"
  then have "unat (b64_char n) = 61" by (simp add: b64_pad_def)
  with n show False by (auto simp: unat_b64_char split: if_splits)
qed

lemma b64_char_not_ws: "n < 64 \<Longrightarrow> \<not> is_ascii_whitespace (b64_char n)"
proof
  assume n: "n < 64" and "is_ascii_whitespace (b64_char n)"
  then have "unat (b64_char n) \<in> {9, 10, 12, 13, 32}"
    by (auto simp: is_ascii_whitespace_def)
  with n show False by (auto simp: unat_b64_char split: if_splits)
qed

lemma b64_pad_not_ws: "\<not> is_ascii_whitespace b64_pad"
  by (simp add: is_ascii_whitespace_def b64_pad_def)

lemma b64_val_pad: "b64_val b64_pad = None"
  by (simp add: b64_val_def b64_pad_def)

lemma b64_encode_shape:
  "b64_encode bs = map b64_char (sextets bs) @ replicate ((3 - length bs mod 3) mod 3) b64_pad"
proof (induction bs rule: b64_encode.induct)
  case (4 a b c r)
  then show ?case by simp
qed (simp_all add: numeral_2_eq_2)

lemma b64_encode_no_ws: "filter (\<lambda>c. \<not> is_ascii_whitespace c) (b64_encode bs) = b64_encode bs"
  unfolding b64_encode_shape using sextets_bound [of bs]
  by (auto simp: filter_id_conv b64_char_not_ws b64_pad_not_ws)

lemma length_b64_encode: "length (b64_encode bs) mod 4 = 0"
  by (induction bs rule: b64_encode.induct) simp_all

lemma strip_padding_shape:
  assumes "\<forall>c \<in> set xs. c \<noteq> b64_pad" "k \<le> 2" "length (xs @ replicate k b64_pad) mod 4 = 0"
  shows "strip_padding (xs @ replicate k b64_pad) = xs"
proof -
  have lastx: "xs \<noteq> [] \<Longrightarrow> last xs \<noteq> b64_pad"
    using assms(1) last_in_set by blast
  consider "k = 0" | "k = 1" | "k = 2" using assms(2) by linarith
  then show ?thesis
  proof cases
    case 1
    then show ?thesis using lastx by (auto simp: strip_padding_def)
  next
    case 2
    then have r: "xs @ replicate k b64_pad = xs @ [b64_pad]" by simp
    show ?thesis unfolding r using lastx assms(3) unfolding r
      by (cases "xs = []") (auto simp: strip_padding_def Let_def)
  next
    case 3
    then have r: "xs @ replicate k b64_pad = (xs @ [b64_pad]) @ [b64_pad]"
      by (simp add: numeral_2_eq_2)
    show ?thesis unfolding r using assms(3) unfolding r
      by (simp add: strip_padding_def Let_def butlast_append)
  qed
qed

lemma those_map_Some: "\<forall>x \<in> set xs. f (g x) = Some x \<Longrightarrow> those (map f (map g xs)) = Some xs"
  by (induction xs) simp_all

lemma div_mod_16: "r < 16 \<Longrightarrow> (q * 16 + r) div 16 = (q::nat) \<and> (q * 16 + r) mod 16 = r"
  by simp

lemma div_mod_4: "r < 4 \<Longrightarrow> (q * 4 + r) div 4 = (q::nat) \<and> (q * 4 + r) mod 4 = r"
  by simp

lemma sextet_first:
  fixes a b :: nat
  shows "b < 256 \<Longrightarrow> a div 4 * 4 + (a mod 4 * 16 + b div 16) div 16 = a"
  using div_mod_16 [of "b div 16" "a mod 4"] by simp

lemma sextet_second:
  fixes a b c :: nat
  shows "b < 256 \<Longrightarrow> c < 256 \<Longrightarrow>
         (a mod 4 * 16 + b div 16) mod 16 * 16 + (b mod 16 * 4 + c div 64) div 4 = b"
  using div_mod_16 [of "b div 16" "a mod 4"] div_mod_4 [of "c div 64" "b mod 16"] by simp

lemma sextet_third:
  fixes b c :: nat
  shows "c < 256 \<Longrightarrow> (b mod 16 * 4 + c div 64) mod 4 * 64 + c mod 64 = c"
  using div_mod_4 [of "c div 64" "b mod 16"] by simp

lemma b64_decode_sextets: "b64_decode (sextets bs) = bs"
proof (induction bs rule: sextets.induct)
  case 1 show ?case by simp
next
  case (2 a)
  show ?case using sextet_first [of 0 "unat a"] by simp
next
  case (3 a b)
  show ?case
    using sextet_first [OF unat_byte_less [of b], of "unat a"]
      sextet_second [OF unat_byte_less [of b], of 0 "unat a"]
    by simp
next
  case (4 a b c r)
  show ?case
    using 4 sextet_first [OF unat_byte_less [of b], of "unat a"]
      sextet_second [OF unat_byte_less [of b] unat_byte_less [of c], of "unat a"]
      sextet_third [OF unat_byte_less [of c], of "unat b"]
    by simp
qed

lemma length_sextets_mod: "length (sextets bs) mod 4 \<noteq> 1"
  by (induction bs rule: sextets.induct) simp_all

lemma forgiving_base64_decode_encode: "forgiving_base64_decode (b64_encode bs) = Some bs"
proof -
  let ?k = "(3 - length bs mod 3) mod 3"
  have nopad: "\<forall>c \<in> set (map b64_char (sextets bs)). c \<noteq> b64_pad"
    using sextets_bound [of bs] by (auto simp: b64_char_not_pad)
  have len: "length (map b64_char (sextets bs) @ replicate ?k b64_pad) mod 4 = 0"
    using length_b64_encode [of bs] by (simp only: b64_encode_shape)
  have "?k < 3" by (rule mod_less_divisor) simp
  then have k: "?k \<le> 2" by simp
  have strip: "strip_padding (b64_encode bs) = map b64_char (sextets bs)"
    unfolding b64_encode_shape by (rule strip_padding_shape [OF nopad k len])
  have l1: "length (sextets bs) mod 4 \<noteq> 1" by (rule length_sextets_mod)
  have th: "those (map b64_val (map b64_char (sextets bs))) = Some (sextets bs)"
    using sextets_bound [of bs] by (intro those_map_Some) (simp add: b64_val_char)
  show ?thesis
    unfolding forgiving_base64_decode_def b64_encode_no_ws strip Let_def
    using l1 th by (simp add: b64_decode_sextets)
qed

lemma ucast_byte_roundtrip: "(ucast (ucast (b :: byte) :: code_unit) :: byte) = b"
  by (simp add: ucast_up_ucast_id is_up)

lemma charCodes_ucast: "charCodes (map ucast bs) = bs"
  by (simp add: charCodes_def ucast_byte_roundtrip map_idI)

lemma ucast_byte_le: "\<not> 0xFF < (ucast (b :: byte) :: code_unit)"
proof -
  have "unat b < 2 ^ 16" using unat_byte_less [of b] by simp
  then have "unat (ucast b :: code_unit) = unat b"
    by (simp add: unsigned_ucast_eq take_bit_nat_eq_self)
  then have "unat (ucast b :: code_unit) < 256" using unat_byte_less [of b] by simp
  then show ?thesis by (simp add: word_less_nat_alt)
qed

lemma btoa_ucast: "btoa (map ucast bs) = Inr (b64_encode bs)"
  by (simp add: btoa_def list_ex_iff ucast_byte_le ucast_byte_roundtrip map_idI)

lemma fromCharCode_within:
  "length bs \<le> argument_limit pf \<Longrightarrow> fromCharCode pf bs = Inr (map ucast bs)"
  by (simp add: fromCharCode_def)

lemma fromCharCode_beyond:
  "argument_limit pf < length bs \<Longrightarrow> fromCharCode pf bs = Inl RangeError"
  by (simp add: fromCharCode_def)

lemma atob_b64_encode: "atob (b64_encode bs) = Inr (map ucast bs)"
  by (simp add: atob_def forgiving_base64_decode_encode)

section \<open>JSON: parsing what was written\<close>

lemma unat_cu_less: "unat (c :: code_unit) < 65536"
  using unsigned_less [of c, where 'a = nat] by simp

lemma hex_val_digit: "n < 16 \<Longrightarrow> hex_val (hex_digit n) = Some n"
  unfolding hex_val_def hex_digit_def Let_def
  using unat_cu_of_nat [of "48 + n"] unat_cu_of_nat [of "87 + n"]
  by auto

lemma hex_arith:
  fixes n :: nat
  shows "n div 4096 * 4096 + n div 256 mod 16 * 256 + n div 16 mod 16 * 16 + n mod 16 = n"
proof -
  have 1: "n mod 256 = 16 * (n div 16 mod 16) + n mod 16"
    using mod_mult2_eq [of n 16 16] by simp
  have 2: "n mod 4096 = 256 * (n div 256 mod 16) + n mod 256"
    using mod_mult2_eq [of n 256 16] by simp
  have "n = n div 4096 * 4096 + n mod 4096" by simp
  then show ?thesis using 1 2 by simp
qed

lemma of_nat_unat_cu: "(of_nat (unat c) :: code_unit) = c"
  by simp

lemma hex4_unicode_escape:
  "hex4 (hex_digit (unat c div 4096)) (hex_digit ((unat c div 256) mod 16))
        (hex_digit ((unat c div 16) mod 16)) (hex_digit (unat c mod 16)) = Some c"
proof -
  have a: "unat c div 4096 < 16" using unat_cu_less [of c] by simp
  have b: "unat c div 256 mod 16 < 16" "unat c div 16 mod 16 < 16" "unat c mod 16 < 16"
    by simp_all
  show ?thesis
    unfolding hex4_def
    by (simp only: hex_val_digit a b prod.case option.case hex_arith of_nat_unat_cu)
qed

lemma parse_string_raw:
  "c \<noteq> 0x22 \<Longrightarrow> c \<noteq> 0x5C \<Longrightarrow> \<not> c < 0x20 \<Longrightarrow>
   parse_string (c # t) = (case parse_string t of None \<Rightarrow> None | Some (s, r) \<Rightarrow> Some (c # s, r))"
  by simp

lemma surrogate_raw:
  assumes "is_surrogate c"
  shows "c \<noteq> 0x22" "c \<noteq> 0x5C" "\<not> c < 0x20"
  using assms
  by (auto simp: is_surrogate_def is_high_surrogate_def is_low_surrogate_def
      word_le_nat_alt word_less_nat_alt)

lemma parse_string_quote_unit:
  "parse_string (quote_unit c @ t) =
     (case parse_string t of None \<Rightarrow> None | Some (s, r) \<Rightarrow> Some (c # s, r))"
proof -
  consider "c = 0x08" | "c = 0x09" | "c = 0x0A" | "c = 0x0C" | "c = 0x0D" | "c = 0x22" | "c = 0x5C"
    | "c \<notin> {0x08, 0x09, 0x0A, 0x0C, 0x0D, 0x22, 0x5C}" "c < 0x20 \<or> is_surrogate c"
    | "c \<notin> {0x08, 0x09, 0x0A, 0x0C, 0x0D, 0x22, 0x5C}" "\<not> (c < 0x20 \<or> is_surrogate c)"
    by blast
  then show ?thesis
  proof cases
    case 8
    then have q: "quote_unit c = unicode_escape c" by (simp add: quote_unit_def)
    show ?thesis unfolding q unicode_escape_def
      by (simp add: hex4_unicode_escape)
  next
    case 9
    then have q: "quote_unit c = [c]" by (simp add: quote_unit_def)
    show ?thesis unfolding q using 9 by simp
  qed (auto simp: quote_unit_def unescape_def split: option.splits)
qed

lemma parse_string_quote_body:
  "parse_string (quote_body s @ 0x22 # rest) = Some (s, rest)"
proof (induction s rule: quote_body.induct)
  case 1
  show ?case by simp
next
  case (2 c)
  show ?case by (simp add: parse_string_quote_unit)
next
  case (3 c d r)
  show ?case
  proof (cases "is_high_surrogate c \<and> is_low_surrogate d")
    case True
    then have c: "is_surrogate c" and d: "is_surrogate d" by (simp_all add: is_surrogate_def)
    show ?thesis using True 3(1) surrogate_raw [OF c] surrogate_raw [OF d] by simp
  next
    case False
    then have "quote_body (c # d # r) @ 0x22 # rest = quote_unit c @ (quote_body (d # r) @ 0x22 # rest)"
      by auto
    then show ?thesis using False 3(2) by (simp only: parse_string_quote_unit) simp
  qed
qed

lemma skip_ws_nonws: "\<not> is_json_ws c \<Longrightarrow> skip_ws (c # r) = c # r"
  by (simp add: skip_ws_def)

lemma stringify_members_single: "stringify_members [(k, v)] @ t = member_text k v t"
  by (simp add: quote_def member_text_def)

lemma stringify_members_more:
  "stringify_members ((k, v) # e # es) @ t = member_text k v (0x2C # stringify_members (e # es) @ t)"
  by (cases e) (simp add: quote_def member_text_def)

lemma skip_ws_member_text: "skip_ws (member_text k v t) = member_text k v t"
  by (simp add: member_text_def skip_ws_nonws is_json_ws_def)

lemma parse_members_more:
  "parse_members (Suc (Suc m)) acc (member_text k v (0x2C # t)) =
     parse_members (Suc m) (obj_define acc k (JString v)) (skip_ws t)"
  by (simp add: member_text_def parse_string_quote_body skip_ws_nonws is_json_ws_def)

lemma parse_members_last:
  "parse_members (Suc (Suc m)) acc (member_text k v (0x7D # t)) =
     Some (JObject (obj_define acc k (JString v)), t)"
  by (simp add: member_text_def parse_string_quote_body skip_ws_nonws is_json_ws_def)

lemma define_all_Cons: "define_all ((k, v) # es) acc = define_all es (obj_define acc k (JString v))"
  by (simp add: define_all_def)

lemma define_all_Nil: "define_all [] acc = acc"
  by (simp add: define_all_def)

lemma parse_members_stringify:
  "length es < m \<Longrightarrow>
   parse_members (Suc m) acc (stringify_members ((k, v) # es) @ 0x7D # rest) =
     Some (JObject (define_all ((k, v) # es) acc), rest)"
proof (induction es arbitrary: m acc k v)
  case Nil
  then obtain j where m: "m = Suc j" by (cases m) auto
  show ?case unfolding m stringify_members_single parse_members_last define_all_Cons define_all_Nil ..
next
  case (Cons e es)
  obtain k' v' where e: "e = (k', v')" by (cases e)
  from Cons.prems obtain j where m: "m = Suc j" and j: "length es < j" by (cases m) auto
  have sk: "skip_ws (stringify_members ((k', v') # es) @ 0x7D # rest) =
            stringify_members ((k', v') # es) @ 0x7D # rest"
    by (cases es) (simp_all only: stringify_members_single stringify_members_more skip_ws_member_text)
  show ?case
    unfolding e m stringify_members_more parse_members_more sk
    by (simp only: Cons.IH [OF j] define_all_Cons)
qed

lemma length_stringify_members: "length es \<le> length (stringify_members es)"
  by (induction es rule: stringify_members.induct) (simp_all add: quote_def)

lemma stringify_members_head:
  "stringify_members ((k, v) # r) @ t = 0x22 # tl (stringify_members ((k, v) # r) @ t)"
  by (cases r) (simp_all add: quote_def)

lemma parse_value_object:
  "x \<noteq> 0x7D \<Longrightarrow> \<not> is_json_ws x \<Longrightarrow> parse_value (Suc n) (0x7B # x # t) = parse_members n [] (x # t)"
  by (simp add: skip_ws_nonws)

lemma JSON_parse_stringify:
  "JSON_parse (JSON_stringify es) = Inr (JObject (define_all es []))"
proof (cases es)
  case Nil
  show ?thesis unfolding Nil
    by (simp add: JSON_parse_def JSON_stringify_def skip_ws_def is_json_ws_def define_all_def)
next
  case (Cons e r)
  obtain k v where e: "e = (k, v)" by (cases e)
  let ?body = "stringify_members ((k, v) # r) @ [0x7D]"
  have len: "length (JSON_stringify es) = Suc (length ?body)"
    by (simp add: JSON_stringify_def Cons e)
  have "length ((k, v) # r) \<le> length (stringify_members ((k, v) # r))"
    by (rule length_stringify_members)
  then have "length r < length ?body - 1" by simp
  then obtain m where m: "length ?body = Suc m" "length r < m" by (cases "length ?body") auto
  have pm: "parse_members (Suc m) [] ?body = Some (JObject (define_all ((k, v) # r) []), [])"
    by (rule parse_members_stringify [OF m(2)])
  have pv: "parse_value (Suc (Suc m)) (0x7B # ?body) = parse_members (Suc m) [] ?body"
    by (subst (1 2) stringify_members_head, rule parse_value_object) (simp_all add: is_json_ws_def)
  have sk: "skip_ws (0x7B # ?body) = 0x7B # ?body"
    by (rule skip_ws_nonws) (simp add: is_json_ws_def)
  have js: "JSON_stringify es = 0x7B # ?body" by (simp add: JSON_stringify_def Cons e)
  show ?thesis
    unfolding JSON_parse_def len m(1) unfolding js sk pv pm
    by (simp add: skip_ws_def Cons e)
qed

section \<open>Own-property order\<close>

lemma array_index_inj: "array_index a = Some n \<Longrightarrow> array_index b = Some n \<Longrightarrow> a = b"
  by (auto simp: array_index_def split: if_splits)

lemma key_before_irrefl: "\<not> key_before a a"
  by (simp add: key_before_def split: option.splits)

lemma key_before_trans: "key_before a b \<Longrightarrow> key_before b c \<Longrightarrow> array_index b \<noteq> None \<or> array_index c \<noteq> None \<or> a \<noteq> c \<Longrightarrow> key_before a c"
  by (auto simp: key_before_def split: option.splits)

lemma sorted_key_before_distinct: "sorted_wrt key_before ks \<Longrightarrow> distinct ks"
  by (induction ks) (auto simp: key_before_irrefl)

lemma own_order_distinct: "own_order es \<Longrightarrow> distinct (map fst es)"
  unfolding own_order_def by (rule sorted_key_before_distinct)

lemma own_order_map: "own_order (map (\<lambda>e. (fst e, f e)) es) = own_order es"
  by (simp add: own_order_def comp_def)

lemma obj_define_snoc:
  assumes "own_order (acc @ [(k, v)])"
  shows "obj_define acc k v = acc @ [(k, v)]"
proof -
  from assms have before: "\<forall>e \<in> set acc. key_before (fst e) k"
    by (auto simp: own_order_def sorted_wrt_append)
  then have "k \<notin> fst ` set acc" using key_before_irrefl by auto
  then have none: "map_of acc k = None" by (simp add: map_of_eq_None_iff)
  show ?thesis
  proof (cases "array_index k")
    case None
    then show ?thesis using none by (simp add: obj_define_def)
  next
    case (Some n)
    have "\<forall>e \<in> set acc. key_index_below n (fst e)"
      using before Some by (auto simp: key_before_def key_index_below_def split: option.splits)
    then have "takeWhile (\<lambda>e. key_index_below n (fst e)) acc = acc"
      "dropWhile (\<lambda>e. key_index_below n (fst e)) acc = []"
      by simp_all
    then show ?thesis using none Some by (simp add: obj_define_def)
  qed
qed

lemma fold_define_ordered:
  "own_order (acc @ es) \<Longrightarrow> fold (\<lambda>e a. obj_define a (fst e) (snd e)) es acc = acc @ es"
proof (induction es arbitrary: acc)
  case Nil
  show ?case by simp
next
  case (Cons e es)
  have o1: "own_order (acc @ [(fst e, snd e)])"
    using Cons.prems by (auto simp: own_order_def sorted_wrt_append)
  have o2: "own_order ((acc @ [e]) @ es)" using Cons.prems by simp
  show ?case using Cons.IH [OF o2] obj_define_snoc [OF o1] by simp
qed

lemma define_all_ordered:
  assumes "own_order es"
  shows "define_all es [] = map (\<lambda>e. (fst e, JString (snd e))) es"
proof -
  let ?es = "map (\<lambda>e. (fst e, JString (snd e))) es"
  have "define_all es [] = fold (\<lambda>e a. obj_define a (fst e) (snd e)) ?es []"
    by (simp add: define_all_def fold_map comp_def)
  also have "\<dots> = [] @ ?es"
    by (rule fold_define_ordered) (simp add: own_order_map assms)
  finally show ?thesis by simp
qed

lemma JSON_parse_stringify_ordered:
  "own_order es \<Longrightarrow>
   JSON_parse (JSON_stringify es) = Inr (JObject (map (\<lambda>e. (fst e, JString (snd e))) es))"
  by (simp add: JSON_parse_stringify define_all_ordered)

lemma map_fst_update: "map fst (map (\<lambda>e. if fst e = k then (k, v) else e) es) = map fst es"
  by (induction es) auto

lemma below_before:
  "array_index k = Some n \<Longrightarrow> key_index_below n a \<Longrightarrow> key_before a k"
  by (auto simp: key_index_below_def key_before_def split: option.splits)

lemma not_below_after:
  assumes k: "array_index k = Some n" and nb: "\<not> key_index_below n a" and ne: "a \<noteq> k"
  shows "key_before k a"
proof (cases "array_index a")
  case None
  then show ?thesis using k by (simp add: key_before_def)
next
  case (Some m)
  have "m \<noteq> n" using array_index_inj [of a n k] Some k ne by auto
  moreover have "\<not> m < n" using nb Some by (simp add: key_index_below_def)
  ultimately have "n < m" by simp
  then show ?thesis using k Some by (simp add: key_before_def)
qed

lemma below_closed:
  "key_before a b \<Longrightarrow> key_index_below n b \<Longrightarrow> key_index_below n a"
  by (auto simp: key_index_below_def key_before_def split: option.splits)

lemma sorted_dropWhile_all:
  "sorted_wrt key_before ks \<Longrightarrow> a \<in> set (dropWhile (key_index_below n) ks) \<Longrightarrow>
   \<not> key_index_below n a"
proof (induction ks)
  case Nil
  then show ?case by simp
next
  case (Cons b ks)
  have sorted: "sorted_wrt key_before ks" and before: "\<forall>c \<in> set ks. key_before b c"
    using Cons.prems(1) by simp_all
  show ?case
  proof (cases "key_index_below n b")
    case True
    then have "a \<in> set (dropWhile (key_index_below n) ks)" using Cons.prems(2) by simp
    then show ?thesis by (rule Cons.IH [OF sorted])
  next
    case False
    then have "a = b \<or> a \<in> set ks" using Cons.prems(2) by simp
    then show ?thesis
    proof
      assume "a = b"
      then show ?thesis using False by simp
    next
      assume "a \<in> set ks"
      then have "key_before b a" using before by blast
      then show ?thesis using False below_closed [of b a n] by blast
    qed
  qed
qed

lemma map_fst_takeWhile: "map fst (takeWhile (\<lambda>e. P (fst e)) es) = takeWhile P (map fst es)"
  by (induction es) simp_all

lemma map_fst_dropWhile: "map fst (dropWhile (\<lambda>e. P (fst e)) es) = dropWhile P (map fst es)"
  by (induction es) simp_all

lemma own_order_obj_define:
  assumes "own_order es"
  shows "own_order (obj_define es k v)"
proof (cases "map_of es k")
  case (Some old)
  then have "obj_define es k v = map (\<lambda>e. if fst e = k then (k, v) else e) es"
    by (simp add: obj_define_def)
  then show ?thesis using assms by (simp only: own_order_def map_fst_update)
next
  case None
  then have notin: "k \<notin> set (map fst es)" by (simp add: map_of_eq_None_iff)
  show ?thesis
  proof (cases "array_index k")
    case ni: None
    have "\<forall>a \<in> set (map fst es). key_before a k"
      using notin ni by (auto simp: key_before_def split: option.splits)
    then show ?thesis using assms None ni
      by (simp add: obj_define_def own_order_def sorted_wrt_append)
  next
    case (Some n)
    let ?ks = "map fst es"
    let ?P = "key_index_below n"
    have whole: "sorted_wrt key_before (takeWhile ?P ?ks @ dropWhile ?P ?ks)"
      using assms by (simp add: own_order_def)
    have st: "sorted_wrt key_before (takeWhile ?P ?ks)"
      and sd: "sorted_wrt key_before (dropWhile ?P ?ks)"
      and cross: "\<forall>x \<in> set (takeWhile ?P ?ks). \<forall>y \<in> set (dropWhile ?P ?ks). key_before x y"
      using whole unfolding sorted_wrt_append by blast+
    have t: "\<forall>a \<in> set (takeWhile ?P ?ks). key_before a k"
    proof
      fix a assume "a \<in> set (takeWhile ?P ?ks)"
      then have "?P a" by (rule set_takeWhileD [THEN conjunct2])
      then show "key_before a k" by (rule below_before [OF Some])
    qed
    have d: "\<forall>a \<in> set (dropWhile ?P ?ks). key_before k a"
    proof
      fix a assume a: "a \<in> set (dropWhile ?P ?ks)"
      have "sorted_wrt key_before ?ks" using assms by (simp add: own_order_def)
      then have "\<not> ?P a" using a by (rule sorted_dropWhile_all)
      moreover have "a \<in> set ?ks" using a by (rule set_dropWhileD)
      then have "a \<noteq> k" using notin by blast
      ultimately show "key_before k a" by (rule not_below_after [OF Some])
    qed
    have "sorted_wrt key_before (takeWhile ?P ?ks @ k # dropWhile ?P ?ks)"
      unfolding sorted_wrt_append sorted_wrt.simps using st sd cross t d by simp
    moreover have "map fst (obj_define es k v) = takeWhile ?P ?ks @ k # dropWhile ?P ?ks"
      using None Some by (simp add: obj_define_def map_fst_takeWhile map_fst_dropWhile)
    ultimately show ?thesis by (simp only: own_order_def)
  qed
qed

lemma own_order_obj_assign: "own_order es \<Longrightarrow> own_order (obj_assign es k v)"
  by (simp add: obj_assign_def own_order_obj_define)

lemma map_of_update:
  "map_of (map (\<lambda>e. if fst e = k then (k, v) else e) es) k' =
     (if k' = k then (if map_of es k = None then None else Some v) else map_of es k')"
  by (induction es) auto

lemma map_of_insert:
  assumes "map_of (xs @ ys) k = None"
  shows "map_of (xs @ (k, v) # ys) k' = (if k' = k then Some v else map_of (xs @ ys) k')"
proof -
  have x: "map_of xs k = None" and y: "map_of ys k = None"
    using assms by (auto simp: map_add_def split: option.splits)
  show ?thesis using x y by (auto simp: map_add_def split: option.splits)
qed

lemma map_of_obj_define:
  "map_of (obj_define es k v) k' = (if k' = k then Some v else map_of es k')"
proof (cases "map_of es k")
  case (Some old)
  then show ?thesis by (simp add: obj_define_def map_of_update)
next
  case None
  show ?thesis
  proof (cases "array_index k")
    case ni: None
    have "map_of (es @ [(k, v)]) k' = (if k' = k then Some v else map_of (es @ []) k')"
      by (rule map_of_insert) (simp add: None)
    then show ?thesis using None ni by (simp add: obj_define_def)
  next
    case (Some n)
    let ?P = "\<lambda>e. key_index_below n (fst e)"
    have split: "takeWhile ?P es @ dropWhile ?P es = es" by simp
    have "map_of (takeWhile ?P es @ (k, v) # dropWhile ?P es) k' =
          (if k' = k then Some v else map_of (takeWhile ?P es @ dropWhile ?P es) k')"
      by (rule map_of_insert) (simp only: split None)
    then show ?thesis using None Some by (simp add: obj_define_def)
  qed
qed

section \<open>The vault: an owner without a record\<close>

text \<open>
  C7. For every owner identifier without a stored record and every password,
  \<open>retrievePrivateKey\<close> returns \<^verbatim>\<open>null\<close> (\<open>Inr None\<close>), not an error: the password is
  not looked at, and no primitive is called.
\<close>

theorem retrievePrivateKey_absent:
  "store_get db userId = None \<Longrightarrow> retrievePrivateKey pf db userId password = Inr None"
  by (simp add: retrievePrivateKey_def)

theorem retrievePrivateKey_absent_witness:
  "store_get Map.empty (js ''carol'') = None
   \<and> retrievePrivateKey ref_platform Map.empty (js ''carol'') (js ''hunter2'') = Inr None"
  using retrievePrivateKey_absent [of Map.empty "js ''carol''" ref_platform "js ''hunter2''"]
  by (simp add: store_get_def)

section \<open>The vault: what is stored\<close>

lemma getRandomValues_eq: "getRandomValues n g = (map g [0..<n], \<lambda>i. g (i + n))"
  by (simp add: getRandomValues_def)

lemma encryptPrivateKey_extractable:
  "encryptPrivateKey pf g \<lparr>material = RsaOaepPrivate d, extractable = True, usages = us\<rparr> password =
     Inr ((aes_gcm_encrypt pf
             (pbkdf2_sha256 pf (TextEncoder_encode password) (map g [0..<16]) 100000 256)
             (map (\<lambda>i. g (i + 16)) [0..<12]) (pkcs8_encode pf d),
           map g [0..<16], map (\<lambda>i. g (i + 16)) [0..<12]),
          \<lambda>i. g (i + 16 + 12))"
  by (simp add: encryptPrivateKey_def getRandomValues_eq subtle_deriveKey_def
      subtle_importKey_pbkdf2_def subtle_exportKey_pkcs8_def subtle_encrypt_aes_def)

text \<open>
  C5, as the code has it. For an extractable private key \<open>storePrivateKey\<close> succeeds. It
  draws a 16-byte salt and then a 12-byte IV from the random source, derives a 256-bit
  key from the UTF-8 bytes of the password with PBKDF2, SHA-256 and 100000 iterations,
  encrypts the PKCS#8 form of the key with AES-GCM under that key and IV, and writes the
  object with the three properties \<^verbatim>\<open>encrypted\<close>, \<^verbatim>\<open>salt\<close> and \<^verbatim>\<open>iv\<close> under the
  key \<open>userId\<close>, replacing what was there and leaving the other keys alone. The owner
  identifier is the key of the store, not a property of the object, and neither the
  iteration count nor the hash is stored.
\<close>

theorem storePrivateKey_record:
  "storePrivateKey pf g db userId
      \<lparr>material = RsaOaepPrivate d, extractable = True, usages = us\<rparr> password =
     Inr (db(userId \<mapsto>
            [(''encrypted'',
              aes_gcm_encrypt pf
                (pbkdf2_sha256 pf (TextEncoder_encode password) (map g [0..<16]) 100000 256)
                (map (\<lambda>i. g (i + 16)) [0..<12]) (pkcs8_encode pf d)),
             (''salt'', map g [0..<16]),
             (''iv'', map (\<lambda>i. g (i + 16)) [0..<12])]),
          \<lambda>i. g (i + 16 + 12))
   \<and> length (map g [0..<16]) = 16 \<and> length (map (\<lambda>i. g (i + 16)) [0..<12]) = 12"
  by (simp add: storePrivateKey_def encryptPrivateKey_extractable store_put_def)

text \<open>
  C5 as stated asks for the owner identifier, the iteration count and the hash inside
  the stored record. The object written for \<^verbatim>\<open>alice\<close> has exactly three properties.
\<close>

theorem storePrivateKey_record_counterexample:
  "(case storePrivateKey ref_platform ref_rng Map.empty (js ''alice'')
           \<lparr>material = RsaOaepPrivate 7, extractable = True, usages = [Decrypt]\<rparr> (js ''hunter2'') of
      Inl e \<Rightarrow> None
    | Inr (db, g) \<Rightarrow> map_option (map fst) (store_get db (js ''alice'')))
   = Some [''encrypted'', ''salt'', ''iv'']"
  by (simp add: storePrivateKey_def encryptPrivateKey_extractable store_put_def store_get_def)

section \<open>Encrypting for nobody\<close>

lemma atob_undefined: "atob (js ''undefined'') = Inl InvalidCharacterError"
  by (simp add: atob_def forgiving_base64_decode_def js_def is_ascii_whitespace_def
      strip_padding_def Let_def)

lemma JSON_parse_empty_object: "JSON_parse (JSON_stringify []) = Inr (JObject [])"
  by (simp add: JSON_parse_stringify define_all_Nil)

lemma resolve_empty_object:
  "resolveEncryptedKey pf (JSON_stringify []) myUserId = Undefined
   \<or> resolveEncryptedKey pf (JSON_stringify []) myUserId = Native"
  by (simp add: resolveEncryptedKey_def JSON_parse_empty_object js_get_def truthy_def first_value_def)

lemma decryptWithKey_unresolved:
  "v = Undefined \<or> v = Native \<Longrightarrow>
   decryptWithKey pf (b64_encode ct) v iv privateKey = Inl InvalidCharacterError"
  by (auto simp: decryptWithKey_def atob_b64_encode atob_value_def atob_undefined)

lemma encryptMessage_empty:
  assumes "length (aes_gcm_encrypt pf (map g [0..<32]) (map (\<lambda>i. g (i + 32)) [0..<12])
                     (TextEncoder_encode plaintext)) \<le> argument_limit pf"
    and "12 \<le> argument_limit pf"
  shows "\<exists>g'. encryptMessage pf g plaintext [] =
     Inr (\<lparr>ciphertext_b64 = b64_encode (aes_gcm_encrypt pf (map g [0..<32]) (map (\<lambda>i. g (i + 32)) [0..<12])
                                 (TextEncoder_encode plaintext)),
          encryptedKeys = [],
          iv_b64 = b64_encode (map (\<lambda>i. g (i + 32)) [0..<12])\<rparr>, g')"
proof -
  have iv: "fromCharCode pf (map (\<lambda>i. g (i + 32)) [0..<12]) =
            Inr (map ucast (map (\<lambda>i. g (i + 32)) [0..<12]))"
    by (rule fromCharCode_within) (simp add: assms(2))
  show ?thesis
    by (simp add: encryptMessage_def subtle_generateKey_aes_def getRandomValues_eq
        subtle_encrypt_aes_def subtle_exportKey_raw_def fromCharCode_within [OF assms(1)] iv
        btoa_ucast del: map_map)
qed

lemma encryptMessage_empty_beyond:
  assumes "argument_limit pf < length (aes_gcm_encrypt pf (map g [0..<32]) (map (\<lambda>i. g (i + 32)) [0..<12])
                     (TextEncoder_encode plaintext))"
  shows "encryptMessage pf g plaintext [] = Inl RangeError"
  using assms
  by (simp add: encryptMessage_def subtle_generateKey_aes_def getRandomValues_eq
      subtle_encrypt_aes_def subtle_exportKey_raw_def fromCharCode_beyond)

lemma utf16_scalars_ascii: "\<forall>c \<in> set s. c < 0x80 \<Longrightarrow> utf16_scalars s = map unat s"
proof (induction s rule: utf16_scalars.induct)
  case 1
  show ?case by simp
next
  case (2 c)
  then have "\<not> is_surrogate c"
    by (auto simp: is_surrogate_def is_high_surrogate_def is_low_surrogate_def
        word_le_nat_alt word_less_nat_alt)
  then show ?case by simp
next
  case (3 c d r)
  then have c: "c < 0x80" by simp
  then have "\<not> is_surrogate c" "\<not> is_high_surrogate c"
    by (auto simp: is_surrogate_def is_high_surrogate_def is_low_surrogate_def
        word_le_nat_alt word_less_nat_alt)
  then show ?case using 3 by simp
qed

lemma length_TextEncoder_ascii:
  assumes "\<forall>c \<in> set s. c < 0x80"
  shows "length (TextEncoder_encode s) = length s"
proof -
  have one: "length (utf8_encode_scalar (unat c)) = 1" if "c \<in> set s" for c
    using assms that by (simp add: utf8_encode_scalar_def word_less_nat_alt)
  have "length (concat (map utf8_encode_scalar (map unat s))) = length s"
    using one by (induction s) simp_all
  then show ?thesis by (simp add: TextEncoder_encode_def utf16_scalars_ascii [OF assms])
qed

text \<open>
  C10, as the code has it. \<open>encryptMessage\<close> does not check that there is a recipient.
  With an empty map of public keys, and with a ciphertext and an IV that
  \<^verbatim>\<open>String.fromCharCode\<close> takes in one call (the AES-GCM ciphertext of the UTF-8 bytes
  is no longer than the argument limit of the engine, and the limit is at least 12), it
  succeeds for every plaintext and every state of the random source, and the envelope
  has an empty map of wrapped keys. Nobody can decrypt that envelope: for every private
  key and every identifier \<open>decryptMessage\<close> fails with InvalidCharacterError, because
  the resolved key is \<^verbatim>\<open>undefined\<close> or an inherited built-in and \<^verbatim>\<open>atob\<close> rejects it.
\<close>

theorem encryptMessage_no_recipients:
  assumes "length (aes_gcm_encrypt pf (map g [0..<32]) (map (\<lambda>i. g (i + 32)) [0..<12])
                     (TextEncoder_encode plaintext)) \<le> argument_limit pf"
    and "12 \<le> argument_limit pf"
  shows "\<exists>env g'. encryptMessage pf g plaintext [] = Inr (env, g') \<and> encryptedKeys env = [] \<and>
     (\<forall>privateKey myUserId.
        decryptMessage pf (ciphertext_b64 env) (JSON_stringify (encryptedKeys env)) (iv_b64 env)
          privateKey myUserId = Inl InvalidCharacterError)"
proof -
  obtain g' where e: "encryptMessage pf g plaintext [] =
     Inr (\<lparr>ciphertext_b64 = b64_encode (aes_gcm_encrypt pf (map g [0..<32]) (map (\<lambda>i. g (i + 32)) [0..<12])
                                 (TextEncoder_encode plaintext)),
          encryptedKeys = [],
          iv_b64 = b64_encode (map (\<lambda>i. g (i + 32)) [0..<12])\<rparr>, g')"
    using encryptMessage_empty [OF assms] by blast
  show ?thesis
    unfolding e decryptMessage_def
    using resolve_empty_object [of pf] by (simp add: decryptWithKey_unresolved)
qed

lemma js_hello: "js ''hello'' = [0x68, 0x65, 0x6C, 0x6C, 0x6F]"
  by (simp add: js_def)

lemma encode_hello: "TextEncoder_encode [0x68, 0x65, 0x6C, 0x6C, 0x6F] = [0x68, 0x65, 0x6C, 0x6C, 0x6F]"
  by (simp add: TextEncoder_encode_def utf8_encode_scalar_def is_surrogate_def
      is_high_surrogate_def is_low_surrogate_def)

theorem encryptMessage_no_recipients_witness:
  "length (aes_gcm_encrypt ref_platform (map ref_rng [0..<32]) (map (\<lambda>i. ref_rng (i + 32)) [0..<12])
             (TextEncoder_encode (js ''hello''))) \<le> argument_limit ref_platform
   \<and> 12 \<le> argument_limit ref_platform
   \<and> (\<exists>env g'. encryptMessage ref_platform ref_rng (js ''hello'') [] = Inr (env, g')
         \<and> encryptedKeys env = []
         \<and> decryptMessage ref_platform (ciphertext_b64 env) (JSON_stringify (encryptedKeys env))
              (iv_b64 env) \<lparr>material = RsaOaepPrivate 7, extractable = False, usages = [Decrypt]\<rparr>
              (js ''alice'') = Inl InvalidCharacterError)"
proof -
  have a: "length (aes_gcm_encrypt ref_platform (map ref_rng [0..<32])
             (map (\<lambda>i. ref_rng (i + 32)) [0..<12]) (TextEncoder_encode (js ''hello'')))
           \<le> argument_limit ref_platform"
    by (simp add: ref_platform_def js_hello encode_hello)
  have b: "12 \<le> argument_limit ref_platform" by (simp add: ref_platform_def)
  show ?thesis using a b encryptMessage_no_recipients [OF a b] by blast
qed

text \<open>
  C10 as stated promises success whenever the map is empty. On a plaintext of 200000
  letters the ciphertext has more bytes than one call takes arguments, and the call
  fails with a RangeError.
\<close>

theorem encryptMessage_no_recipients_counterexample:
  "encryptMessage ref_platform ref_rng (replicate 200000 0x61) [] = Inl RangeError"
proof (rule encryptMessage_empty_beyond)
  have "length (TextEncoder_encode (replicate 200000 (0x61 :: code_unit))) = 200000"
    by (subst length_TextEncoder_ascii) simp_all
  then show "argument_limit ref_platform
        < length (aes_gcm_encrypt ref_platform (map ref_rng [0..<32])
                   (map (\<lambda>i. ref_rng (i + 32)) [0..<12])
                   (TextEncoder_encode (replicate 200000 0x61)))"
    by (simp add: ref_platform_def)
qed

section \<open>The public-key codec\<close>

lemma importPublicKey_eq:
  "importPublicKey pf s =
     (case forgiving_base64_decode s of
        None \<Rightarrow> Inl InvalidCharacterError
      | Some bs \<Rightarrow>
          (case spki_decode pf bs of
             None \<Rightarrow> Inl DataError
           | Some q \<Rightarrow> Inr \<lparr>material = RsaOaepPublic q, extractable = False, usages = [Encrypt]\<rparr>))"
  by (simp add: importPublicKey_def atob_def subtle_importKey_spki_def charCodes_def
      ucast_byte_roundtrip map_idI split: option.splits)

lemma exportPublicKey_not_extractable:
  "exportPublicKey pf \<lparr>material = RsaOaepPublic q, extractable = False, usages = us\<rparr> =
     Inl InvalidAccessError"
  by (simp add: exportPublicKey_def subtle_exportKey_spki_def)

lemma exportPublicKey_extractable:
  "length (spki_encode pf p) \<le> argument_limit pf \<Longrightarrow>
   exportPublicKey pf \<lparr>material = RsaOaepPublic p, extractable = True, usages = us\<rparr> =
     Inr (b64_encode (spki_encode pf p))"
  by (simp add: exportPublicKey_def subtle_exportKey_spki_def fromCharCode_within btoa_ucast)

lemma forgiving_ignores_whitespace:
  "forgiving_base64_decode (filter (\<lambda>c. \<not> is_ascii_whitespace c) s) = forgiving_base64_decode s"
  by (simp add: forgiving_base64_decode_def)

text \<open>
  C9, as the code has it. Take an RSA-OAEP public key that is extractable, whose
  SubjectPublicKeyInfo encoding the platform reads back as the same key, and whose
  encoding is no longer than the argument limit of \<^verbatim>\<open>String.fromCharCode\<close>. Then
  \<open>exportPublicKey\<close> returns the base64 text of that encoding, and \<open>importPublicKey\<close>
  of that text returns a key with the same material, not extractable and usable for
  encryption only. \<open>exportPublicKey\<close> fails with InvalidAccessError on every RSA-OAEP
  public key that is not extractable, so on every key that \<open>importPublicKey\<close> returns.
  For every string, \<open>importPublicKey\<close> fails with InvalidCharacterError exactly when
  the forgiving base64 decoder of \<^verbatim>\<open>atob\<close> rejects the string, with DataError exactly
  when the string decodes and the platform rejects the bytes as the encoding of a key,
  and with no other error; ASCII white space in the string makes no difference.
\<close>

theorem public_key_codec:
  assumes "spki_decode pf (spki_encode pf p) = Some p"
    and "length (spki_encode pf p) \<le> argument_limit pf"
  shows "exportPublicKey pf \<lparr>material = RsaOaepPublic p, extractable = True, usages = us\<rparr> =
           Inr (b64_encode (spki_encode pf p))
         \<and> importPublicKey pf (b64_encode (spki_encode pf p)) =
           Inr \<lparr>material = RsaOaepPublic p, extractable = False, usages = [Encrypt]\<rparr>
         \<and> (\<forall>q us'. exportPublicKey pf
                        \<lparr>material = RsaOaepPublic q, extractable = False, usages = us'\<rparr> =
                      Inl InvalidAccessError)
         \<and> (\<forall>s k. importPublicKey pf s = Inr k \<longrightarrow> exportPublicKey pf k = Inl InvalidAccessError)
         \<and> (\<forall>s. importPublicKey pf s = Inl InvalidCharacterError \<longleftrightarrow>
                  forgiving_base64_decode s = None)
         \<and> (\<forall>s. importPublicKey pf s = Inl DataError \<longleftrightarrow>
                  (\<exists>bs. forgiving_base64_decode s = Some bs \<and> spki_decode pf bs = None))
         \<and> (\<forall>s e. importPublicKey pf s = Inl e \<longrightarrow> e = InvalidCharacterError \<or> e = DataError)
         \<and> (\<forall>s. importPublicKey pf (filter (\<lambda>c. \<not> is_ascii_whitespace c) s) =
                  importPublicKey pf s)"
proof (intro conjI allI impI)
  show "exportPublicKey pf \<lparr>material = RsaOaepPublic p, extractable = True, usages = us\<rparr> =
           Inr (b64_encode (spki_encode pf p))"
    by (rule exportPublicKey_extractable [OF assms(2)])
  show "importPublicKey pf (b64_encode (spki_encode pf p)) =
           Inr \<lparr>material = RsaOaepPublic p, extractable = False, usages = [Encrypt]\<rparr>"
    by (simp add: importPublicKey_eq forgiving_base64_decode_encode assms(1))
  show "exportPublicKey pf \<lparr>material = RsaOaepPublic q, extractable = False, usages = us'\<rparr> =
          Inl InvalidAccessError" for q us'
    by (rule exportPublicKey_not_extractable)
  show "exportPublicKey pf k = Inl InvalidAccessError" if "importPublicKey pf s = Inr k" for s k
    using that by (auto simp: importPublicKey_eq exportPublicKey_not_extractable split: option.splits)
  show "importPublicKey pf s = Inl InvalidCharacterError \<longleftrightarrow> forgiving_base64_decode s = None" for s
    by (simp add: importPublicKey_eq split: option.splits)
  show "importPublicKey pf s = Inl DataError \<longleftrightarrow>
          (\<exists>bs. forgiving_base64_decode s = Some bs \<and> spki_decode pf bs = None)" for s
    by (simp add: importPublicKey_eq split: option.splits)
  show "e = InvalidCharacterError \<or> e = DataError" if "importPublicKey pf s = Inl e" for s e
    using that by (auto simp: importPublicKey_eq split: option.splits)
  show "importPublicKey pf (filter (\<lambda>c. \<not> is_ascii_whitespace c) s) = importPublicKey pf s" for s
    by (simp only: importPublicKey_eq forgiving_ignores_whitespace)
qed

lemma b64_MAc: "b64_encode [0x30, 0x07] = js ''MAc=''"
  by (simp add: b64_char_def b64_pad_def js_def)

lemma decode_MA_c: "forgiving_base64_decode (js ''MA c'') = Some [0x30, 0x07]"
  by (simp add: forgiving_base64_decode_def js_def is_ascii_whitespace_def strip_padding_def
      b64_val_def Let_def)

theorem public_key_codec_witness:
  "spki_decode ref_platform (spki_encode ref_platform 7) = Some 7
   \<and> length (spki_encode ref_platform 7) \<le> argument_limit ref_platform
   \<and> exportPublicKey ref_platform \<lparr>material = RsaOaepPublic 7, extractable = True, usages = [Encrypt]\<rparr>
       = Inr (js ''MAc='')
   \<and> importPublicKey ref_platform (js ''MAc='') =
       Inr \<lparr>material = RsaOaepPublic 7, extractable = False, usages = [Encrypt]\<rparr>"
proof -
  have h: "spki_decode ref_platform (spki_encode ref_platform 7) = Some 7"
    by (simp add: ref_platform_def)
  have l: "length (spki_encode ref_platform 7) \<le> argument_limit ref_platform"
    by (simp add: ref_platform_def)
  have e: "spki_encode ref_platform 7 = [0x30, 0x07]" by (simp add: ref_platform_def)
  show ?thesis
    using h l public_key_codec [OF h l, of "[Encrypt]"] unfolding e b64_MAc by simp
qed

text \<open>
  C9 as stated covers every valid public key and rejects every string that is not the
  base64 text of an encoding. The key that \<open>importPublicKey\<close> returns is a valid public
  key, and \<open>exportPublicKey\<close> rejects it: it was imported as not extractable. And the
  string \<^verbatim>\<open>MA c\<close>, with a space and without padding, is not the text \<^verbatim>\<open>MAc=\<close> that
  \<open>exportPublicKey\<close> writes for the key, yet \<open>importPublicKey\<close> accepts it and returns
  that key.
\<close>

theorem public_key_codec_counterexample:
  "(case importPublicKey ref_platform (js ''MAc='') of
      Inl e \<Rightarrow> Inl e
    | Inr k \<Rightarrow> exportPublicKey ref_platform k) = Inl InvalidAccessError
   \<and> exportPublicKey ref_platform \<lparr>material = RsaOaepPublic 7, extractable = True, usages = [Encrypt]\<rparr>
       = Inr (js ''MAc='')
   \<and> js ''MA c'' \<noteq> js ''MAc=''
   \<and> importPublicKey ref_platform (js ''MA c'') =
       Inr \<lparr>material = RsaOaepPublic 7, extractable = False, usages = [Encrypt]\<rparr>"
proof (intro conjI)
  have "forgiving_base64_decode (b64_encode [0x30, 0x07]) = Some [0x30, 0x07]"
    by (rule forgiving_base64_decode_encode)
  then show "(case importPublicKey ref_platform (js ''MAc='') of
      Inl e \<Rightarrow> Inl e
    | Inr k \<Rightarrow> exportPublicKey ref_platform k) = Inl InvalidAccessError"
    unfolding b64_MAc
    by (simp add: importPublicKey_eq ref_platform_def exportPublicKey_def subtle_exportKey_spki_def)
  have e: "spki_encode ref_platform 7 = [0x30, 0x07]" by (simp add: ref_platform_def)
  have l: "length (spki_encode ref_platform 7) \<le> argument_limit ref_platform"
    by (simp add: ref_platform_def)
  show "exportPublicKey ref_platform
          \<lparr>material = RsaOaepPublic 7, extractable = True, usages = [Encrypt]\<rparr> = Inr (js ''MAc='')"
    using exportPublicKey_extractable [OF l, of "[Encrypt]"] unfolding e b64_MAc .
  show "js ''MA c'' \<noteq> js ''MAc=''" by (simp add: js_def)
  show "importPublicKey ref_platform (js ''MA c'') =
       Inr \<lparr>material = RsaOaepPublic 7, extractable = False, usages = [Encrypt]\<rparr>"
    by (simp add: importPublicKey_eq decode_MA_c ref_platform_def)
qed

section \<open>The vault: unlocking\<close>





lemma ref_aes_gcm_correct: "aes_gcm_correct ref_platform"
  by (simp add: aes_gcm_correct_def ref_platform_def)


lemma ref_rsa_key_pair: "rsa_key_pair ref_platform d d"
  by (simp add: rsa_key_pair_def ref_platform_def split: if_splits)





section \<open>Resolving the wrapped key\<close>

lemma decryptWithKey_envelope:
  assumes "rsa_oaep_encrypt pf p seed K = Some wrapped" and "rsa_key_pair pf p d"
    and "aes_gcm_correct pf" and "length K = 16 \<or> length K = 24 \<or> length K = 32"
    and "Decrypt \<in> set us"
  shows "decryptWithKey pf (b64_encode (aes_gcm_encrypt pf K ivBytes pt))
           (Value (JString (b64_encode wrapped))) (b64_encode ivBytes)
           \<lparr>material = RsaOaepPrivate d, extractable = ex, usages = us\<rparr> =
         Inr (TextDecoder_decode pt)"
proof -
  have rsa: "rsa_oaep_decrypt pf d wrapped = Some K"
    using assms(1,2) by (simp add: rsa_key_pair_def)
  have aes: "aes_gcm_decrypt pf K ivBytes (aes_gcm_encrypt pf K ivBytes pt) = Some pt"
    using assms(3) by (simp add: aes_gcm_correct_def)
  have imp: "subtle_importKey_aes K [Decrypt] =
             Inr \<lparr>material = AesGcmKey K, extractable = False, usages = [Decrypt]\<rparr>"
    using assms(4) by (auto simp: subtle_importKey_aes_def)
  show ?thesis
    by (simp add: decryptWithKey_def atob_b64_encode atob_value_def charCodes_ucast
        subtle_decrypt_rsa_def assms(5) rsa imp subtle_decrypt_aes_def aes)
qed








lemma ref_wrap: "length K \<le> 190 \<Longrightarrow> rsa_oaep_encrypt ref_platform p seed K = Some (p # K)"
  by (simp add: ref_platform_def)

lemma decode_hello: "TextDecoder_decode [0x68, 0x65, 0x6C, 0x6C, 0x6F] = js ''hello''"
  by (simp add: TextDecoder_decode_def utf8_decode_def strip_bom_def utf16_units_def js_def)



section \<open>Base64 text is not JSON\<close>

lemma takeWhile_digits: "list_all number_char (takeWhile is_digit t)"
  by (induction t) (auto simp: number_char_def)

lemma parse_int_shape:
  "parse_int s = Some (lx, r) \<Longrightarrow> s = lx @ r \<and> list_all number_char lx"
  using takeWhile_digits
  by (auto simp: parse_int_def number_char_def is_digit_def split: list.splits if_splits)

lemma parse_frac_shape:
  "parse_frac s = Some (lx, r) \<Longrightarrow> s = lx @ r \<and> list_all number_char lx"
  using takeWhile_digits
  by (auto simp: parse_frac_def number_char_def split: list.splits if_splits)

lemma parse_sign_shape:
  "parse_sign s = (lx, r) \<Longrightarrow> s = lx @ r \<and> list_all number_char lx"
  by (auto simp: parse_sign_def number_char_def split: list.splits if_splits)

lemma parse_exp_shape:
  "parse_exp s = Some (lx, r) \<Longrightarrow> s = lx @ r \<and> list_all number_char lx"
proof (cases s)
  case Nil
  then show "parse_exp s = Some (lx, r) \<Longrightarrow> ?thesis" by (simp add: parse_exp_def)
next
  case (Cons e t)
  assume p: "parse_exp s = Some (lx, r)"
  show ?thesis
  proof (cases "e = 0x65 \<or> e = 0x45")
    case False
    then show ?thesis using p Cons by (auto simp: parse_exp_def)
  next
    case True
    obtain sg t1 where sg: "parse_sign t = (sg, t1)" by (cases "parse_sign t")
    have t: "t = sg @ t1" and sgc: "list_all number_char sg"
      using parse_sign_shape [OF sg] by simp_all
    have lx: "lx = e # sg @ takeWhile is_digit t1" and r: "r = dropWhile is_digit t1"
      using p Cons True sg by (auto simp: parse_exp_def split: if_splits)
    have "number_char e" using True by (auto simp: number_char_def)
    then show ?thesis using Cons t sgc takeWhile_digits [of t1] by (simp add: lx r)
  qed
qed

lemma parse_number_shape:
  assumes "parse_number s = Some (lx, r)"
  shows "s = lx @ r \<and> list_all number_char lx"
proof -
  obtain sg s1 where sg: "(case s of [] \<Rightarrow> ([], s) | m # t \<Rightarrow> if m = 0x2D then ([m], t) else ([], s)) = (sg, s1)"
    by (cases "(case s of [] \<Rightarrow> ([], s) | m # t \<Rightarrow> if m = 0x2D then ([m], t) else ([], s))")
  have s: "s = sg @ s1" and sgc: "list_all number_char sg"
    using sg by (auto simp: number_char_def split: list.splits if_splits)
  from assms sg obtain i s2 f s3 e s4 where
    i: "parse_int s1 = Some (i, s2)" and f: "parse_frac s2 = Some (f, s3)"
    and e: "parse_exp s3 = Some (e, s4)" and lx: "lx = sg @ i @ f @ e" and r: "r = s4"
    by (auto simp: parse_number_def split: option.splits)
  show ?thesis
    using s sgc parse_int_shape [OF i] parse_frac_shape [OF f] parse_exp_shape [OF e]
    by (simp add: lx r)
qed

lemma parse_literal_shape: "parse_literal lit v s = Some (v', r) \<Longrightarrow> s = lit @ r"
  by (auto simp: parse_literal_def split: if_splits) (metis append_take_drop_id)

lemma b64_text_char_facts:
  assumes "b64_text_char c"
  shows "c \<noteq> 0x7B" "c \<noteq> 0x5B" "c \<noteq> 0x22" "\<not> is_json_ws c"
  using assms
  by (auto simp: b64_text_char_def b64_val_def b64_pad_def is_json_ws_def Let_def split: if_splits)

lemma pad_not_number_char: "\<not> number_char b64_pad"
  by (simp add: number_char_def b64_pad_def is_digit_def)

lemma literal_no_pad:
  "b64_pad \<notin> set (js ''true'')" "b64_pad \<notin> set (js ''false'')" "b64_pad \<notin> set (js ''null'')"
  by (simp_all add: js_def b64_pad_def)

lemma parse_value_b64_text:
  assumes "parse_value n s = Some (v, r)" and "list_all b64_text_char s"
  shows "\<exists>lx. s = lx @ r \<and> b64_pad \<notin> set lx"
proof -
  from assms(1) obtain m where n: "n = Suc m" by (cases n) auto
  from assms(1) n obtain c t where s: "s = c # t" by (cases s) auto
  have c: "b64_text_char c" using assms(2) s by simp
  note cf = b64_text_char_facts [OF c]
  consider (t) "c = 0x74" | (f) "c \<noteq> 0x74" "c = 0x66" | (n) "c \<noteq> 0x74" "c \<noteq> 0x66" "c = 0x6E"
    | (num) "c \<noteq> 0x74" "c \<noteq> 0x66" "c \<noteq> 0x6E"
    by blast
  then show ?thesis
  proof cases
    case t
    then have "parse_literal (js ''true'') (JBool True) s = Some (v, r)"
      using assms(1) cf unfolding n s by simp
    then show ?thesis using parse_literal_shape literal_no_pad(1) by blast
  next
    case f
    then have "parse_literal (js ''false'') (JBool False) s = Some (v, r)"
      using assms(1) cf unfolding n s by simp
    then show ?thesis using parse_literal_shape literal_no_pad(2) by blast
  next
    case n
    then have "parse_literal (js ''null'') JNull s = Some (v, r)"
      using assms(1) cf unfolding \<open>n = Suc m\<close> s by simp
    then show ?thesis using parse_literal_shape literal_no_pad(3) by blast
  next
    case num
    then obtain lx where p: "parse_number s = Some (lx, r)"
      using assms(1) cf unfolding n s by (auto split: option.splits)
    have "s = lx @ r" "list_all number_char lx" using parse_number_shape [OF p] by simp_all
    moreover have "b64_pad \<notin> set lx"
      using \<open>list_all number_char lx\<close> pad_not_number_char by (auto simp: list_all_iff)
    ultimately show ?thesis by blast
  qed
qed

lemma skip_ws_b64_text: "list_all b64_text_char s \<Longrightarrow> skip_ws s = s"
  by (cases s) (auto simp: skip_ws_def b64_text_char_facts(4))

lemma JSON_parse_b64_text:
  assumes "list_all b64_text_char s" and "b64_pad \<in> set s"
  shows "JSON_parse s = Inl SyntaxError"
proof (cases "parse_value (length s) s")
  case None
  then show ?thesis by (simp add: JSON_parse_def skip_ws_b64_text [OF assms(1)])
next
  case (Some a)
  obtain v r where a: "a = (v, r)" by (cases a)
  obtain lx where lx: "s = lx @ r" "b64_pad \<notin> set lx"
    using parse_value_b64_text [OF Some [unfolded a] assms(1)] by blast
  have "list_all b64_text_char r" using assms(1) lx(1) by (metis list_all_append)
  then have "skip_ws r = r" by (rule skip_ws_b64_text)
  moreover have "r \<noteq> []" using lx assms(2) by auto
  ultimately show ?thesis
    by (simp add: JSON_parse_def skip_ws_b64_text [OF assms(1)] Some a)
qed

lemma b64_encode_text: "list_all b64_text_char (b64_encode w)"
  unfolding b64_encode_shape using sextets_bound [of w]
  by (auto simp: list_all_iff b64_text_char_def b64_val_char)

lemma b64_encode_padded: "length w mod 3 \<noteq> 0 \<Longrightarrow> b64_pad \<in> set (b64_encode w)"
proof -
  assume "length w mod 3 \<noteq> 0"
  moreover have "length w mod 3 < 3" by simp
  ultimately have "length w mod 3 = 1 \<or> length w mod 3 = 2" by linarith
  then have "0 < (3 - length w mod 3) mod 3" by auto
  then show ?thesis unfolding b64_encode_shape by simp
qed

lemma JSON_parse_padded:
  "length w mod 3 \<noteq> 0 \<Longrightarrow> JSON_parse (b64_encode w) = Inl SyntaxError"
  by (rule JSON_parse_b64_text [OF b64_encode_text b64_encode_padded])

section \<open>The legacy format\<close>

lemma resolve_legacy:
  "JSON_parse encryptedKeyData = Inl SyntaxError \<Longrightarrow>
   resolveEncryptedKey pf encryptedKeyData myUserId = Value (JString encryptedKeyData)"
  by (simp add: resolveEncryptedKey_def)

text \<open>
  C4, as the code has it. Let the \<^verbatim>\<open>encryptedKey\<close> field be the base64 text of a
  content key of 16, 24 or 32 bytes wrapped under a public key, and let
  \<^verbatim>\<open>JSON.parse\<close> throw on that text, as it does whenever the number of wrapped bytes
  is not a multiple of three, so that the text ends in padding. Then the shape
  detection takes the text itself as the legacy value, whatever the identifier of the
  caller. Let moreover the private key belong to that public key and allow decryption,
  let AES-GCM decryption return what was encrypted under the same key and IV, let the
  ciphertext and the IV of the envelope be the base64 text of the AES-GCM encryption of
  the UTF-8 bytes of the plaintext under the content key and of its IV, and let UTF-8
  encoding and decoding leave the plaintext unchanged. Then \<open>decryptMessage\<close> returns
  the plaintext, whatever the identifier of the caller.
\<close>

theorem legacy_format:
  assumes "encryptedKeyData = b64_encode wrapped"
    and "JSON_parse encryptedKeyData = Inl SyntaxError \<or> length wrapped mod 3 \<noteq> 0"
    and "rsa_oaep_encrypt pf p seed K = Some wrapped"
    and "length K = 16 \<or> length K = 24 \<or> length K = 32"
    and "rsa_key_pair pf p d" and "Decrypt \<in> set us"
    and "aes_gcm_correct pf"
    and "TextDecoder_decode (TextEncoder_encode P) = P"
  shows "(\<forall>myUserId. resolveEncryptedKey pf encryptedKeyData myUserId =
                       Value (JString encryptedKeyData))
         \<and> (\<forall>myUserId.
               decryptMessage pf (b64_encode (aes_gcm_encrypt pf K ivBytes (TextEncoder_encode P)))
                 encryptedKeyData (b64_encode ivBytes)
                 \<lparr>material = RsaOaepPrivate d, extractable = ex, usages = us\<rparr> myUserId = Inr P)"
proof -
  have syn: "JSON_parse encryptedKeyData = Inl SyntaxError"
    using assms(2) JSON_parse_padded [of wrapped] assms(1) by auto
  have dec: "decryptWithKey pf (b64_encode (aes_gcm_encrypt pf K ivBytes (TextEncoder_encode P)))
           (Value (JString (b64_encode wrapped))) (b64_encode ivBytes)
           \<lparr>material = RsaOaepPrivate d, extractable = ex, usages = us\<rparr> =
         Inr (TextDecoder_decode (TextEncoder_encode P))"
    by (rule decryptWithKey_envelope [OF assms(3) assms(5) assms(7) assms(4) assms(6)])
  show ?thesis
    using dec by (simp add: decryptMessage_def resolve_legacy [OF syn] assms(1) [symmetric] assms(8))
qed

lemma text_hello:
  "TextDecoder_decode (TextEncoder_encode (js ''hello'')) = js ''hello''"
  by (simp add: js_hello encode_hello decode_hello)

theorem legacy_format_witness:
  "(JSON_parse (b64_encode (7 # replicate 16 1)) = Inl SyntaxError
      \<or> length (7 # replicate 16 (1 :: byte)) mod 3 \<noteq> 0)
   \<and> rsa_oaep_encrypt ref_platform 7 [] (replicate 16 1) = Some (7 # replicate 16 1)
   \<and> rsa_key_pair ref_platform 7 7
   \<and> aes_gcm_correct ref_platform
   \<and> TextDecoder_decode (TextEncoder_encode (js ''hello'')) = js ''hello''
   \<and> decryptMessage ref_platform
         (b64_encode (aes_gcm_encrypt ref_platform (replicate 16 1) (replicate 12 2)
                        (TextEncoder_encode (js ''hello''))))
         (b64_encode (7 # replicate 16 1)) (b64_encode (replicate 12 2))
         \<lparr>material = RsaOaepPrivate 7, extractable = False, usages = [Decrypt]\<rparr> (js ''alice'')
       = Inr (js ''hello'')"
proof -
  have a2: "JSON_parse (b64_encode (7 # replicate 16 1)) = Inl SyntaxError
            \<or> length (7 # replicate 16 (1 :: byte)) mod 3 \<noteq> 0" by simp
  have a3: "rsa_oaep_encrypt ref_platform 7 [] (replicate 16 1) = Some (7 # replicate 16 1)"
    by (rule ref_wrap) simp
  have a4: "length (replicate 16 (1 :: byte)) = 16 \<or> length (replicate 16 (1 :: byte)) = 24
            \<or> length (replicate 16 (1 :: byte)) = 32" by simp
  have a6: "Decrypt \<in> set [Decrypt]" by simp
  show ?thesis
    using a2 a3 ref_rsa_key_pair [of 7] ref_aes_gcm_correct text_hello
      legacy_format [OF refl a2 a3 a4 ref_rsa_key_pair a6 ref_aes_gcm_correct text_hello,
        of "replicate 12 2" False]
    by blast
qed

text \<open>
  C4 as stated covers every well-formed base64 string and every plaintext. The string
  \<^verbatim>\<open>1234\<close> is well-formed base64 for three bytes and also a JSON number: the shape
  detection does not take it as the legacy value, the key resolves to \<^verbatim>\<open>undefined\<close>
  and \<open>decryptMessage\<close> fails at \<^verbatim>\<open>atob\<close>. And a plaintext that starts with U+FEFF,
  in a legacy envelope for the right private key, comes back without it.
\<close>

lemma atob_1234: "atob (js ''1234'') = Inr [0xD7, 0x6D, 0xF8]"
  by (simp add: atob_def forgiving_base64_decode_def js_def is_ascii_whitespace_def
      strip_padding_def b64_val_def b64_pad_def Let_def)

lemma parse_1234: "JSON_parse (js ''1234'') = Inr (JNumber (js ''1234''))"
  by (simp add: JSON_parse_def js_def skip_ws_def is_json_ws_def parse_number_def parse_int_def
      parse_frac_def parse_exp_def is_digit_def)

lemma alice_not_number_name: "js ''alice'' \<notin> set number_prototype_names"
  by (simp add: number_prototype_names_def object_prototype_names_def js_def)

lemma resolve_number:
  "JSON_parse s = Inr (JNumber n) \<Longrightarrow> resolveEncryptedKey pf s (js ''alice'') = Undefined"
  by (simp add: resolveEncryptedKey_def js_get_def alice_not_number_name truthy_def first_value_def)

lemma text_bom:
  "TextDecoder_decode (TextEncoder_encode [0xFEFF, 0x68, 0x69]) = [0x68, 0x69]"
  by (simp add: TextEncoder_encode_def utf8_encode_scalar_def is_surrogate_def
      is_high_surrogate_def is_low_surrogate_def TextDecoder_decode_def utf8_decode_def
      strip_bom_def utf16_units_def)

theorem legacy_format_counterexample:
  "atob (js ''1234'') = Inr [0xD7, 0x6D, 0xF8]
   \<and> resolveEncryptedKey ref_platform (js ''1234'') (js ''alice'') = Undefined
   \<and> decryptMessage ref_platform
         (b64_encode (aes_gcm_encrypt ref_platform (replicate 16 1) (replicate 12 2)
                        (TextEncoder_encode (js ''hello''))))
         (js ''1234'') (b64_encode (replicate 12 2))
         \<lparr>material = RsaOaepPrivate 7, extractable = False, usages = [Decrypt]\<rparr> (js ''alice'')
       = Inl InvalidCharacterError
   \<and> decryptMessage ref_platform
         (b64_encode (aes_gcm_encrypt ref_platform (replicate 16 1) (replicate 12 2)
                        (TextEncoder_encode [0xFEFF, 0x68, 0x69])))
         (b64_encode (7 # replicate 16 1)) (b64_encode (replicate 12 2))
         \<lparr>material = RsaOaepPrivate 7, extractable = False, usages = [Decrypt]\<rparr> (js ''alice'')
       = Inr [0x68, 0x69]"
proof (intro conjI)
  show "atob (js ''1234'') = Inr [0xD7, 0x6D, 0xF8]" by (rule atob_1234)
  show r: "resolveEncryptedKey ref_platform (js ''1234'') (js ''alice'') = Undefined"
    by (rule resolve_number [OF parse_1234])
  show "decryptMessage ref_platform
         (b64_encode (aes_gcm_encrypt ref_platform (replicate 16 1) (replicate 12 2)
                        (TextEncoder_encode (js ''hello''))))
         (js ''1234'') (b64_encode (replicate 12 2))
         \<lparr>material = RsaOaepPrivate 7, extractable = False, usages = [Decrypt]\<rparr> (js ''alice'')
       = Inl InvalidCharacterError"
    unfolding decryptMessage_def r by (rule decryptWithKey_unresolved) simp
  have w7: "rsa_oaep_encrypt ref_platform 7 [] (replicate 16 1) = Some (7 # replicate 16 1)"
    by (rule ref_wrap) simp
  have syn: "JSON_parse (b64_encode (7 # replicate 16 1)) = Inl SyntaxError"
    by (rule JSON_parse_padded) simp
  have "decryptWithKey ref_platform
         (b64_encode (aes_gcm_encrypt ref_platform (replicate 16 1) (replicate 12 2)
                        (TextEncoder_encode [0xFEFF, 0x68, 0x69])))
         (Value (JString (b64_encode (7 # replicate 16 1)))) (b64_encode (replicate 12 2))
         \<lparr>material = RsaOaepPrivate 7, extractable = False, usages = [Decrypt]\<rparr>
       = Inr (TextDecoder_decode (TextEncoder_encode [0xFEFF, 0x68, 0x69]))"
    by (rule decryptWithKey_envelope [OF w7 ref_rsa_key_pair ref_aes_gcm_correct]) simp_all
  then show "decryptMessage ref_platform
         (b64_encode (aes_gcm_encrypt ref_platform (replicate 16 1) (replicate 12 2)
                        (TextEncoder_encode [0xFEFF, 0x68, 0x69])))
         (b64_encode (7 # replicate 16 1)) (b64_encode (replicate 12 2))
         \<lparr>material = RsaOaepPrivate 7, extractable = False, usages = [Decrypt]\<rparr> (js ''alice'')
       = Inr [0x68, 0x69]"
    by (simp only: decryptMessage_def resolve_legacy [OF syn] text_bom)
qed

section \<open>Envelopes\<close>

lemma map_of_obj_assign:
  "map_of (obj_assign es k v) k' =
     (if k' = k \<and> \<not> (k = js ''__proto__'' \<and> map_of es k = None) then Some v else map_of es k')"
  by (auto simp: obj_assign_def map_of_obj_define)

lemma wrap_step:
  assumes "wrap_for_recipients pf g K ((ident, key) # rest) acc = Inr (keys, g')"
  shows "\<exists>p seed c g1. material key = RsaOaepPublic p \<and> rsa_oaep_encrypt pf p seed K = Some c
           \<and> wrap_for_recipients pf g1 K rest (obj_assign acc ident (b64_encode c)) = Inr (keys, g')"
proof -
  from assms obtain c g1 where e: "subtle_encrypt_rsa pf g key K = Inr (c, g1)"
    by (auto split: sum.splits)
  from e obtain p seed where p: "material key = RsaOaepPublic p"
    and c: "rsa_oaep_encrypt pf p seed K = Some c"
    by (auto simp: subtle_encrypt_rsa_def getRandomValues_eq
        split: key_material.splits if_splits option.splits)
  from assms e obtain bin where f: "fromCharCode pf c = Inr bin"
    by (auto split: sum.splits)
  then have bin: "bin = map ucast c" by (auto simp: fromCharCode_def split: if_splits)
  have "wrap_for_recipients pf g1 K rest (obj_assign acc ident (b64_encode c)) = Inr (keys, g')"
    using assms by (simp add: e f bin btoa_ucast)
  then show ?thesis using p c by blast
qed

lemma wrap_own_order:
  "wrap_for_recipients pf g K R acc = Inr (keys, g') \<Longrightarrow> own_order acc \<Longrightarrow> own_order keys"
proof (induction R arbitrary: g acc)
  case Nil
  then show ?case by simp
next
  case (Cons r R)
  obtain ident key where r: "r = (ident, key)" by (cases r)
  from wrap_step [OF Cons.prems(1) [unfolded r]] obtain c g1 where
    w: "wrap_for_recipients pf g1 K R (obj_assign acc ident (b64_encode c)) = Inr (keys, g')"
    by blast
  have "own_order (obj_assign acc ident (b64_encode c))"
    using Cons.prems(2) by (rule own_order_obj_assign)
  then show ?case by (rule Cons.IH [OF w])
qed

lemma wrap_untouched:
  "wrap_for_recipients pf g K R acc = Inr (keys, g') \<Longrightarrow> i \<notin> fst ` set R \<Longrightarrow>
   map_of keys i = map_of acc i"
proof (induction R arbitrary: g acc)
  case Nil
  then show ?case by simp
next
  case (Cons r R)
  obtain ident key where r: "r = (ident, key)" by (cases r)
  from wrap_step [OF Cons.prems(1) [unfolded r]] obtain c g1 where
    w: "wrap_for_recipients pf g1 K R (obj_assign acc ident (b64_encode c)) = Inr (keys, g')"
    by blast
  have ne: "i \<noteq> ident" and nin: "i \<notin> fst ` set R" using Cons.prems(2) r by auto
  have "map_of keys i = map_of (obj_assign acc ident (b64_encode c)) i"
    by (rule Cons.IH [OF w nin])
  also have "\<dots> = map_of acc i" using ne by (simp add: map_of_obj_assign)
  finally show ?case .
qed

lemma wrap_present:
  "wrap_for_recipients pf g K R acc = Inr (keys, g') \<Longrightarrow> distinct (map fst R) \<Longrightarrow>
   (i, key) \<in> set R \<Longrightarrow> i \<noteq> js ''__proto__'' \<Longrightarrow>
   \<exists>p seed c. material key = RsaOaepPublic p \<and> rsa_oaep_encrypt pf p seed K = Some c
              \<and> map_of keys i = Some (b64_encode c)"
proof (induction R arbitrary: g acc)
  case Nil
  then show ?case by simp
next
  case (Cons r R)
  obtain ident k0 where r: "r = (ident, k0)" by (cases r)
  from wrap_step [OF Cons.prems(1) [unfolded r]] obtain p seed c g1 where
    p: "material k0 = RsaOaepPublic p" and c: "rsa_oaep_encrypt pf p seed K = Some c"
    and w: "wrap_for_recipients pf g1 K R (obj_assign acc ident (b64_encode c)) = Inr (keys, g')"
    by blast
  have d: "distinct (map fst R)" and nin: "ident \<notin> fst ` set R"
    using Cons.prems(2) r by auto
  show ?case
  proof (cases "(i, key) = (ident, k0)")
    case True
    then have "map_of keys i = map_of (obj_assign acc ident (b64_encode c)) i"
      using wrap_untouched [OF w] nin by simp
    then have "map_of keys i = Some (b64_encode c)"
      using True Cons.prems(4) by (simp add: map_of_obj_assign)
    then show ?thesis using True p c by blast
  next
    case False
    then have "(i, key) \<in> set R" using Cons.prems(3) r by auto
    then show ?thesis by (rule Cons.IH [OF w d _ Cons.prems(4)])
  qed
qed

lemma wrap_origin:
  "wrap_for_recipients pf g K R acc = Inr (keys, g') \<Longrightarrow> map_of keys i = Some w \<Longrightarrow>
   map_of acc i = Some w \<or> i \<in> fst ` set R"
  using wrap_untouched by fastforce

lemma encryptMessage_shape:
  assumes "encryptMessage pf g plaintext publicKeys = Inr (env, g')"
  shows "\<exists>g2. ciphertext_b64 env =
           b64_encode (aes_gcm_encrypt pf (map g [0..<32]) (map (\<lambda>i. g (i + 32)) [0..<12])
                         (TextEncoder_encode plaintext))
         \<and> iv_b64 env = b64_encode (map (\<lambda>i. g (i + 32)) [0..<12])
         \<and> wrap_for_recipients pf g2 (map g [0..<32]) publicKeys [] = Inr (encryptedKeys env, g')"
proof -
  let ?K = "map g [0..<32]" and ?iv = "map (\<lambda>i. g (i + 32)) [0..<12]"
  let ?ct = "aes_gcm_encrypt pf ?K ?iv (TextEncoder_encode plaintext)"
  let ?g2 = "snd (getRandomValues 12 (snd (getRandomValues 32 g)))"
  have start: "encryptMessage pf g plaintext publicKeys =
     (case wrap_for_recipients pf ?g2 ?K publicKeys [] of
        Inl e \<Rightarrow> Inl e
      | Inr (keys, g3) \<Rightarrow>
          (case fromCharCode pf ?ct of
             Inl e \<Rightarrow> Inl e
           | Inr ctBinary \<Rightarrow>
               (case btoa ctBinary of
                  Inl e \<Rightarrow> Inl e
                | Inr ct \<Rightarrow>
                    (case fromCharCode pf ?iv of
                       Inl e \<Rightarrow> Inl e
                     | Inr ivBinary \<Rightarrow>
                         (case btoa ivBinary of
                            Inl e \<Rightarrow> Inl e
                          | Inr ivs \<Rightarrow>
                              Inr (\<lparr>ciphertext_b64 = ct, encryptedKeys = keys, iv_b64 = ivs\<rparr>,
                                   g3))))))"
    by (simp add: encryptMessage_def subtle_generateKey_aes_def getRandomValues_eq
        subtle_encrypt_aes_def subtle_exportKey_raw_def del: map_map)
  from assms obtain keys g3 where w: "wrap_for_recipients pf ?g2 ?K publicKeys [] = Inr (keys, g3)"
    unfolding start by (auto split: sum.splits)
  from assms w obtain cb where cb: "fromCharCode pf ?ct = Inr cb"
    unfolding start by (auto split: sum.splits)
  then have cb': "cb = map ucast ?ct" by (auto simp: fromCharCode_def split: if_splits)
  from assms w cb obtain ib where ib: "fromCharCode pf ?iv = Inr ib"
    unfolding start by (auto simp: cb' btoa_ucast split: sum.splits)
  then have ib': "ib = map ucast ?iv" by (auto simp: fromCharCode_def split: if_splits)
  have "env = \<lparr>ciphertext_b64 = b64_encode ?ct, encryptedKeys = keys, iv_b64 = b64_encode ?iv\<rparr>"
    and "g' = g3"
    using assms unfolding start w by (simp_all add: cb cb' ib ib' btoa_ucast del: map_map)
  then show ?thesis using w by auto
qed

lemma b64_encode_nonempty: "c \<noteq> [] \<Longrightarrow> b64_encode c \<noteq> []"
  by (cases c rule: b64_encode.cases) simp_all

lemma map_of_JString:
  "map_of (map (\<lambda>e. (fst e, JString (snd e))) es) i = map_option JString (map_of es i)"
  by (induction es) auto

lemma resolve_own:
  assumes "own_order keys" and "map_of keys i = Some w" and "w \<noteq> []"
  shows "resolveEncryptedKey pf (JSON_stringify keys) i = Value (JString w)"
  by (simp add: resolveEncryptedKey_def JSON_parse_stringify_ordered [OF assms(1)] js_get_def
      map_of_JString assms(2,3) truthy_def)

lemma own_order_Nil: "own_order []"
  by (simp add: own_order_def)

text \<open>What a recipient gets back: the decoding of the UTF-8 bytes of the plaintext.\<close>

lemma decrypt_encrypted:
  assumes "encryptMessage pf g plaintext publicKeys = Inr (env, g')"
    and "distinct (map fst publicKeys)"
    and "(ident, key) \<in> set publicKeys" and "ident \<noteq> js ''__proto__''"
    and "material key = RsaOaepPublic p" and "rsa_key_pair pf p d" and "Decrypt \<in> set us"
    and "aes_gcm_correct pf"
  shows "decryptMessage pf (ciphertext_b64 env) (JSON_stringify (encryptedKeys env)) (iv_b64 env)
           \<lparr>material = RsaOaepPrivate d, extractable = ex, usages = us\<rparr> ident =
         Inr (TextDecoder_decode (TextEncoder_encode plaintext))"
proof -
  let ?K = "map g [0..<32]" and ?iv = "map (\<lambda>i. g (i + 32)) [0..<12]"
  from encryptMessage_shape [OF assms(1)] obtain g2 where
    ct: "ciphertext_b64 env = b64_encode (aes_gcm_encrypt pf ?K ?iv (TextEncoder_encode plaintext))"
    and iv: "iv_b64 env = b64_encode ?iv"
    and w: "wrap_for_recipients pf g2 ?K publicKeys [] = Inr (encryptedKeys env, g')"
    by blast
  from wrap_present [OF w assms(2,3,4)] assms(5) obtain seed c where
    c: "rsa_oaep_encrypt pf p seed ?K = Some c"
    and m: "map_of (encryptedKeys env) ident = Some (b64_encode c)"
    by auto
  have ne: "b64_encode c \<noteq> []"
    using c assms(6) by (intro b64_encode_nonempty) (auto simp: rsa_key_pair_def)
  have oo: "own_order (encryptedKeys env)" by (rule wrap_own_order [OF w own_order_Nil])
  have r: "resolveEncryptedKey pf (JSON_stringify (encryptedKeys env)) ident =
           Value (JString (b64_encode c))"
    by (rule resolve_own [OF oo m ne])
  show ?thesis
    unfolding decryptMessage_def r ct iv
    by (rule decryptWithKey_envelope [OF c assms(6) assms(8) _ assms(7)]) simp
qed

section \<open>Envelopes: the round trip\<close>

lemma wrap_proto:
  "wrap_for_recipients pf g K R acc = Inr (keys, g') \<Longrightarrow> map_of acc (js ''__proto__'') = None \<Longrightarrow>
   map_of keys (js ''__proto__'') = None"
proof (induction R arbitrary: g acc)
  case Nil
  then show ?case by simp
next
  case (Cons r R)
  obtain ident key where r: "r = (ident, key)" by (cases r)
  from wrap_step [OF Cons.prems(1) [unfolded r]] obtain c g1 where
    w: "wrap_for_recipients pf g1 K R (obj_assign acc ident (b64_encode c)) = Inr (keys, g')"
    by blast
  have "map_of (obj_assign acc ident (b64_encode c)) (js ''__proto__'') = None"
    using Cons.prems(2) by (simp add: map_of_obj_assign)
  then show ?case by (rule Cons.IH [OF w])
qed

lemma wrap_Cons_ok:
  assumes "material key = RsaOaepPublic p" and "Encrypt \<in> set (usages key)"
    and "rsa_oaep_encrypt pf p (map g [0..<32]) K = Some c" and "length c \<le> argument_limit pf"
  shows "wrap_for_recipients pf g K ((ident, key) # rest) acc =
         wrap_for_recipients pf (\<lambda>i. g (i + 32)) K rest (obj_assign acc ident (b64_encode c))"
  by (simp add: subtle_encrypt_rsa_def assms getRandomValues_eq fromCharCode_within btoa_ucast)

lemma encryptMessage_ok:
  assumes "wrap_for_recipients pf (snd (getRandomValues 12 (snd (getRandomValues 32 g))))
             (map g [0..<32]) publicKeys [] = Inr (keys, g3)"
    and "length (aes_gcm_encrypt pf (map g [0..<32]) (map (\<lambda>i. g (i + 32)) [0..<12])
                   (TextEncoder_encode plaintext)) \<le> argument_limit pf"
    and "12 \<le> argument_limit pf"
  shows "\<exists>env. encryptMessage pf g plaintext publicKeys = Inr (env, g3) \<and> encryptedKeys env = keys"
proof -
  have iv: "fromCharCode pf (map (\<lambda>i. g (i + 32)) [0..<12]) =
            Inr (map ucast (map (\<lambda>i. g (i + 32)) [0..<12]))"
    by (rule fromCharCode_within) (simp add: assms(3))
  have "encryptMessage pf g plaintext publicKeys =
      Inr (\<lparr>ciphertext_b64 = b64_encode (aes_gcm_encrypt pf (map g [0..<32])
               (map (\<lambda>i. g (i + 32)) [0..<12]) (TextEncoder_encode plaintext)),
            encryptedKeys = keys,
            iv_b64 = b64_encode (map (\<lambda>i. g (i + 32)) [0..<12])\<rparr>, g3)"
    using assms(1)
    by (simp add: encryptMessage_def subtle_generateKey_aes_def getRandomValues_eq
        subtle_encrypt_aes_def subtle_exportKey_raw_def fromCharCode_within [OF assms(2)] iv
        btoa_ucast del: map_map)
  then show ?thesis by simp
qed

lemma ref_wrap_one:
  "\<exists>g'. wrap_for_recipients ref_platform g (map h [0..<32])
      [(i, \<lparr>material = RsaOaepPublic p, extractable = False, usages = [Encrypt]\<rparr>)] acc =
   Inr (obj_assign acc i (b64_encode (p # map h [0..<32])), g')"
proof -
  have e: "rsa_oaep_encrypt ref_platform p (map g [0..<32]) (map h [0..<32]) = Some (p # map h [0..<32])"
    by (rule ref_wrap) simp
  have l: "length (p # map h [0..<32]) \<le> argument_limit ref_platform"
    by (simp add: ref_platform_def)
  show ?thesis by (subst wrap_Cons_ok [OF _ _ e l]) simp_all
qed

lemma ref_wrap_two:
  "\<exists>g'. wrap_for_recipients ref_platform g (map h [0..<32])
      [(i, \<lparr>material = RsaOaepPublic p, extractable = False, usages = [Encrypt]\<rparr>),
       (j, \<lparr>material = RsaOaepPublic q, extractable = False, usages = [Encrypt]\<rparr>)] acc =
   Inr (obj_assign (obj_assign acc i (b64_encode (p # map h [0..<32]))) j
          (b64_encode (q # map h [0..<32])), g')"
proof -
  have e: "rsa_oaep_encrypt ref_platform p (map g [0..<32]) (map h [0..<32]) = Some (p # map h [0..<32])"
    by (rule ref_wrap) simp
  have l: "length (p # map h [0..<32]) \<le> argument_limit ref_platform"
    by (simp add: ref_platform_def)
  have step: "wrap_for_recipients ref_platform g (map h [0..<32])
      [(i, \<lparr>material = RsaOaepPublic p, extractable = False, usages = [Encrypt]\<rparr>),
       (j, \<lparr>material = RsaOaepPublic q, extractable = False, usages = [Encrypt]\<rparr>)] acc =
    wrap_for_recipients ref_platform (\<lambda>i. g (i + 32)) (map h [0..<32])
      [(j, \<lparr>material = RsaOaepPublic q, extractable = False, usages = [Encrypt]\<rparr>)]
      (obj_assign acc i (b64_encode (p # map h [0..<32])))"
    by (rule wrap_Cons_ok [OF _ _ e l]) simp_all
  show ?thesis unfolding step by (rule ref_wrap_one)
qed

lemma ref_ciphertext_length:
  "length (aes_gcm_encrypt ref_platform (map g [0..<32]) (map (\<lambda>i. g (i + 32)) [0..<12]) pt)
     = 44 + length pt"
  by (simp add: ref_platform_def)

lemma ref_encrypt_one:
  assumes "length (TextEncoder_encode plaintext) \<le> 1000"
  shows "\<exists>env g'. encryptMessage ref_platform g plaintext
            [(i, \<lparr>material = RsaOaepPublic p, extractable = False, usages = [Encrypt]\<rparr>)] = Inr (env, g')
          \<and> encryptedKeys env = obj_assign [] i (b64_encode (p # map g [0..<32]))"
proof -
  have l: "length (aes_gcm_encrypt ref_platform (map g [0..<32]) (map (\<lambda>i. g (i + 32)) [0..<12])
                   (TextEncoder_encode plaintext)) \<le> argument_limit ref_platform"
    unfolding ref_ciphertext_length using assms by (simp add: ref_platform_def)
  have t: "12 \<le> argument_limit ref_platform" by (simp add: ref_platform_def)
  obtain g3 where w: "wrap_for_recipients ref_platform
        (snd (getRandomValues 12 (snd (getRandomValues 32 g)))) (map g [0..<32])
        [(i, \<lparr>material = RsaOaepPublic p, extractable = False, usages = [Encrypt]\<rparr>)] [] =
      Inr (obj_assign [] i (b64_encode (p # map g [0..<32])), g3)"
    using ref_wrap_one by blast
  show ?thesis using encryptMessage_ok [OF w l t] by blast
qed

lemma ref_encrypt_two:
  assumes "length (TextEncoder_encode plaintext) \<le> 1000"
  shows "\<exists>env g'. encryptMessage ref_platform g plaintext
            [(i, \<lparr>material = RsaOaepPublic p, extractable = False, usages = [Encrypt]\<rparr>),
             (j, \<lparr>material = RsaOaepPublic q, extractable = False, usages = [Encrypt]\<rparr>)] = Inr (env, g')
          \<and> encryptedKeys env = obj_assign (obj_assign [] i (b64_encode (p # map g [0..<32]))) j
                                   (b64_encode (q # map g [0..<32]))"
proof -
  have l: "length (aes_gcm_encrypt ref_platform (map g [0..<32]) (map (\<lambda>i. g (i + 32)) [0..<12])
                   (TextEncoder_encode plaintext)) \<le> argument_limit ref_platform"
    unfolding ref_ciphertext_length using assms by (simp add: ref_platform_def)
  have t: "12 \<le> argument_limit ref_platform" by (simp add: ref_platform_def)
  obtain g3 where w: "wrap_for_recipients ref_platform
        (snd (getRandomValues 12 (snd (getRandomValues 32 g)))) (map g [0..<32])
        [(i, \<lparr>material = RsaOaepPublic p, extractable = False, usages = [Encrypt]\<rparr>),
         (j, \<lparr>material = RsaOaepPublic q, extractable = False, usages = [Encrypt]\<rparr>)] [] =
      Inr (obj_assign (obj_assign [] i (b64_encode (p # map g [0..<32]))) j
             (b64_encode (q # map g [0..<32])), g3)"
    using ref_wrap_two by blast
  show ?thesis using encryptMessage_ok [OF w l t] by blast
qed

lemma js_alice_bob: "js ''alice'' \<noteq> js ''bob''" "js ''bob'' \<noteq> js ''__proto__''"
  "js ''alice'' \<noteq> js ''__proto__''"
  by (simp_all add: js_def)

text \<open>
  C1, as the code has it. Let \<open>encryptMessage\<close> succeed on a plaintext that UTF-8
  encoding followed by decoding leaves unchanged and on the entries of a map of public
  keys, no identifier twice. Take a recipient of the map other than \<^verbatim>\<open>__proto__\<close>,
  with an RSA-OAEP public key, and a private key that belongs to that public key and
  allows decryption, and let AES-GCM decryption return what was encrypted under the same
  key and IV. Then \<open>decryptMessage\<close>, given the ciphertext of the envelope, the JSON text
  of its map of wrapped keys, its IV, that private key and the identifier of the
  recipient, returns the plaintext.
\<close>

theorem multi_recipient_round_trip:
  assumes "encryptMessage pf g plaintext publicKeys = Inr (env, g')"
    and "distinct (map fst publicKeys)"
    and "(ident, key) \<in> set publicKeys" and "ident \<noteq> js ''__proto__''"
    and "material key = RsaOaepPublic p" and "rsa_key_pair pf p d" and "Decrypt \<in> set us"
    and "aes_gcm_correct pf"
    and "TextDecoder_decode (TextEncoder_encode plaintext) = plaintext"
  shows "decryptMessage pf (ciphertext_b64 env) (JSON_stringify (encryptedKeys env)) (iv_b64 env)
           \<lparr>material = RsaOaepPrivate d, extractable = ex, usages = us\<rparr> ident = Inr plaintext"
  using decrypt_encrypted [OF assms(1-8), of ex] by (simp add: assms(9))

theorem multi_recipient_round_trip_witness:
  "distinct (map fst [(js ''alice'', \<lparr>material = RsaOaepPublic (7 :: byte), extractable = False, usages = [Encrypt]\<rparr>),
                      (js ''bob'', \<lparr>material = RsaOaepPublic (9 :: byte), extractable = False, usages = [Encrypt]\<rparr>)])
   \<and> js ''bob'' \<noteq> js ''__proto__''
   \<and> rsa_key_pair ref_platform 9 9
   \<and> aes_gcm_correct ref_platform
   \<and> TextDecoder_decode (TextEncoder_encode (js ''hello'')) = js ''hello''
   \<and> (\<exists>env g'. encryptMessage ref_platform ref_rng (js ''hello'')
           [(js ''alice'', \<lparr>material = RsaOaepPublic 7, extractable = False, usages = [Encrypt]\<rparr>),
            (js ''bob'', \<lparr>material = RsaOaepPublic 9, extractable = False, usages = [Encrypt]\<rparr>)]
           = Inr (env, g')
         \<and> decryptMessage ref_platform (ciphertext_b64 env) (JSON_stringify (encryptedKeys env))
             (iv_b64 env) \<lparr>material = RsaOaepPrivate 9, extractable = False, usages = [Decrypt]\<rparr>
             (js ''bob'') = Inr (js ''hello''))"
proof -
  let ?R = "[(js ''alice'', \<lparr>material = RsaOaepPublic (7 :: byte), extractable = False, usages = [Encrypt]\<rparr>),
             (js ''bob'', \<lparr>material = RsaOaepPublic (9 :: byte), extractable = False, usages = [Encrypt]\<rparr>)]"
  have len: "length (TextEncoder_encode (js ''hello'')) \<le> 1000"
    by (simp add: js_hello encode_hello)
  obtain env g' where e: "encryptMessage ref_platform ref_rng (js ''hello'') ?R = Inr (env, g')"
    using ref_encrypt_two [OF len] by blast
  have d: "distinct (map fst ?R)" by (simp add: js_alice_bob)
  have m: "(js ''bob'', \<lparr>material = RsaOaepPublic (9 :: byte), extractable = False, usages = [Encrypt]\<rparr>)
             \<in> set ?R" by simp
  have k: "material \<lparr>material = RsaOaepPublic (9 :: byte), extractable = False, usages = [Encrypt]\<rparr>
             = (RsaOaepPublic 9 :: (byte, byte) key_material)" by simp
  have u: "Decrypt \<in> set [Decrypt]" by simp
  show ?thesis
    using d js_alice_bob(2) ref_rsa_key_pair [of 9] ref_aes_gcm_correct text_hello e
      multi_recipient_round_trip [OF e d m js_alice_bob(2) k ref_rsa_key_pair u ref_aes_gcm_correct
        text_hello, of False]
    by blast
qed

text \<open>
  C1 as stated covers every plaintext and every recipient. A plaintext that starts with
  U+FEFF comes back without it. And the assignment of the wrapped key for the recipient
  \<^verbatim>\<open>__proto__\<close> creates no entry, so that recipient gets an error.
\<close>

theorem multi_recipient_round_trip_counterexample:
  "(case encryptMessage ref_platform ref_rng [0xFEFF, 0x68, 0x69]
           [(js ''alice'', \<lparr>material = RsaOaepPublic 7, extractable = False, usages = [Encrypt]\<rparr>)] of
      Inl e \<Rightarrow> Inl e
    | Inr (env, g') \<Rightarrow>
        decryptMessage ref_platform (ciphertext_b64 env) (JSON_stringify (encryptedKeys env))
          (iv_b64 env) \<lparr>material = RsaOaepPrivate 7, extractable = False, usages = [Decrypt]\<rparr>
          (js ''alice'')) = Inr [0x68, 0x69]
   \<and> (case encryptMessage ref_platform ref_rng (js ''hello'')
           [(js ''__proto__'', \<lparr>material = RsaOaepPublic 7, extractable = False, usages = [Encrypt]\<rparr>)] of
      Inl e \<Rightarrow> Inl e
    | Inr (env, g') \<Rightarrow>
        decryptMessage ref_platform (ciphertext_b64 env) (JSON_stringify (encryptedKeys env))
          (iv_b64 env) \<lparr>material = RsaOaepPrivate 7, extractable = False, usages = [Decrypt]\<rparr>
          (js ''__proto__'')) = Inl InvalidCharacterError"
proof
  let ?kA = "\<lparr>material = RsaOaepPublic (7 :: byte), extractable = False, usages = [Encrypt]\<rparr>
               :: (byte, byte) CryptoKey"
  have len: "length (TextEncoder_encode [0xFEFF, 0x68, 0x69]) \<le> 1000"
    by (simp add: TextEncoder_encode_def utf8_encode_scalar_def is_surrogate_def
        is_high_surrogate_def is_low_surrogate_def)
  obtain env g' where e: "encryptMessage ref_platform ref_rng [0xFEFF, 0x68, 0x69]
      [(js ''alice'', ?kA)] = Inr (env, g')"
    using ref_encrypt_one [OF len] by blast
  have "decryptMessage ref_platform (ciphertext_b64 env) (JSON_stringify (encryptedKeys env))
          (iv_b64 env) \<lparr>material = RsaOaepPrivate 7, extractable = False, usages = [Decrypt]\<rparr>
          (js ''alice'') = Inr (TextDecoder_decode (TextEncoder_encode [0xFEFF, 0x68, 0x69]))"
  proof (rule decrypt_encrypted [OF e _ _ js_alice_bob(3) _ ref_rsa_key_pair _ ref_aes_gcm_correct])
    show "distinct (map fst [(js ''alice'', ?kA)])" by simp
    show "(js ''alice'', ?kA) \<in> set [(js ''alice'', ?kA)]" by simp
    show "material ?kA = RsaOaepPublic 7" by simp
    show "Decrypt \<in> set [Decrypt]" by simp
  qed
  then show "(case encryptMessage ref_platform ref_rng [0xFEFF, 0x68, 0x69] [(js ''alice'', ?kA)] of
      Inl e \<Rightarrow> Inl e
    | Inr (env, g') \<Rightarrow>
        decryptMessage ref_platform (ciphertext_b64 env) (JSON_stringify (encryptedKeys env))
          (iv_b64 env) \<lparr>material = RsaOaepPrivate 7, extractable = False, usages = [Decrypt]\<rparr>
          (js ''alice'')) = Inr [0x68, 0x69]"
    by (simp add: e text_bom)
next
  let ?kA = "\<lparr>material = RsaOaepPublic (7 :: byte), extractable = False, usages = [Encrypt]\<rparr>
               :: (byte, byte) CryptoKey"
  have len: "length (TextEncoder_encode (js ''hello'')) \<le> 1000"
    by (simp add: js_hello encode_hello)
  obtain env g' where e: "encryptMessage ref_platform ref_rng (js ''hello'')
      [(js ''__proto__'', ?kA)] = Inr (env, g')"
    and k: "encryptedKeys env = obj_assign [] (js ''__proto__'') (b64_encode (7 # map ref_rng [0..<32]))"
    using ref_encrypt_one [OF len] by blast
  have k': "encryptedKeys env = []" unfolding k by (simp add: obj_assign_def)
  from encryptMessage_shape [OF e] obtain ct where ct: "ciphertext_b64 env = b64_encode ct" by blast
  have "decryptMessage ref_platform (ciphertext_b64 env) (JSON_stringify (encryptedKeys env))
          (iv_b64 env) \<lparr>material = RsaOaepPrivate 7, extractable = False, usages = [Decrypt]\<rparr>
          (js ''__proto__'') = Inl InvalidCharacterError"
    unfolding decryptMessage_def k' ct
    by (rule decryptWithKey_unresolved) (rule resolve_empty_object)
  then show "(case encryptMessage ref_platform ref_rng (js ''hello'') [(js ''__proto__'', ?kA)] of
      Inl e \<Rightarrow> Inl e
    | Inr (env, g') \<Rightarrow>
        decryptMessage ref_platform (ciphertext_b64 env) (JSON_stringify (encryptedKeys env))
          (iv_b64 env) \<lparr>material = RsaOaepPrivate 7, extractable = False, usages = [Decrypt]\<rparr>
          (js ''__proto__'')) = Inl InvalidCharacterError"
    by (simp add: e)
qed

end
